theory Spec2Isabelle
  imports Complex_Main
begin

section \<open>Values that reach the normalizer\<close>

text \<open>
  The normalizer \<^verbatim>\<open>safe_convert_to_records\<close> of \<^verbatim>\<open>controllers/common.py\<close> (the same
  text is in \<^verbatim>\<open>api_server.py\<close>) inspects the runtime type of its argument and of every
  cell. The types it tells apart are the constructors below.

  A float is only ever classified (\<^verbatim>\<open>np.isnan\<close>, \<^verbatim>\<open>np.isinf\<close>), never computed with, so
  a finite float is represented by the rational number it denotes.
\<close>

datatype pyfloat = NaN | PosInf | NegInf | Finite rat

text \<open>
  Scalars. \<^verbatim>\<open>np.float64\<close> is a subclass of Python's \<^verbatim>\<open>float\<close>; the other NumPy float
  widths (\<open>NpFloating\<close>) are not. A \<^verbatim>\<open>datetime\<close> or \<^verbatim>\<open>pd.Timestamp\<close> carries the text its
  \<^verbatim>\<open>isoformat()\<close> gives. \<open>SNaT\<close> is \<^verbatim>\<open>pd.NaT\<close> (an instance of \<^verbatim>\<open>datetime\<close>), \<open>SNA\<close> is
  \<^verbatim>\<open>pd.NA\<close>.
\<close>

datatype scalar =
    SNone
  | SBool bool
  | SInt int
  | SFloat pyfloat
  | NpFloat64 pyfloat
  | NpFloating pyfloat
  | NpInteger int
  | SStr string
  | SDatetime string
  | SNaT
  | SNA

text \<open>A cell of a table or an entry of a series: a scalar, a list of scalars, or a dict.\<close>

datatype cell =
    Scalar scalar
  | ListCell "scalar list"
  | DictCell "(string \<times> scalar) list"

type_synonym pyrecord = "(string \<times> cell) list"

text \<open>
  The normalizer reads an index key of a series and a level of a hierarchical column
  header through \<^verbatim>\<open>str\<close> only, so each is represented by the text \<^verbatim>\<open>str\<close> gives for it.

  Column labels are a flat index of names, or a \<^verbatim>\<open>MultiIndex\<close> whose labels are tuples of
  levels. A table is its column labels and its rows, each row the cells in column order
  as \<^verbatim>\<open>to_dict(orient="records")\<close> hands them out.
\<close>

datatype columns = Index "string list" | MultiIndex "string list list"

datatype dataframe = DataFrame columns "cell list list"

datatype pyval =
    PScalar scalar
  | PSeries "(string \<times> cell) list"
  | PDataFrame dataframe
  | PDict pyrecord
  | PList "pyval list"

text \<open>Exceptions, with the message \<^verbatim>\<open>str(e)\<close> gives.\<close>

datatype pyexc =
    ValueError string
  | HTTPException nat string
  | OtherException string

section \<open>Library behaviour the normalizer relies on\<close>

fun isnan :: "pyfloat \<Rightarrow> bool" where
  "isnan NaN = True"
| "isnan _ = False"

fun isinf :: "pyfloat \<Rightarrow> bool" where
  "isinf PosInf = True"
| "isinf NegInf = True"
| "isinf _ = False"

text \<open>\<^verbatim>\<open>pd.isna\<close> on a scalar.\<close>

fun isna_scalar :: "scalar \<Rightarrow> bool" where
  "isna_scalar SNone = True"
| "isna_scalar (SFloat f) = isnan f"
| "isna_scalar (NpFloat64 f) = isnan f"
| "isna_scalar (NpFloating f) = isnan f"
| "isna_scalar SNaT = True"
| "isna_scalar SNA = True"
| "isna_scalar _ = False"

text \<open>
  \<^verbatim>\<open>pd.isna\<close> answers a list with an array of booleans, one for each element, and
  anything that is neither a scalar nor array-like with \<^verbatim>\<open>False\<close>.
\<close>

datatype isna_result = IsnaBool bool | IsnaArray "bool list"

fun pd_isna :: "cell \<Rightarrow> isna_result" where
  "pd_isna (Scalar s) = IsnaBool (isna_scalar s)"
| "pd_isna (ListCell xs) = IsnaArray (map isna_scalar xs)"
| "pd_isna (DictCell d) = IsnaBool False"

definition ambiguous_truth :: string where
  "ambiguous_truth =
     ''The truth value of an array with more than one element is ambiguous. Use a.any() or a.all()''"

definition empty_truth :: string where
  "empty_truth =
     ''The truth value of an empty array is ambiguous. Use `array.size > 0` to check that an array is not empty.''"

text \<open>
  The truth value \<^verbatim>\<open>if\<close> and \<^verbatim>\<open>elif\<close> take of the answer. An array of two or more
  elements has none: NumPy raises \<^verbatim>\<open>ValueError\<close>. So does the empty array from NumPy 2.2
  on (earlier versions warn and answer \<^verbatim>\<open>False\<close>); no result below depends on that case.
\<close>

fun truth :: "isna_result \<Rightarrow> pyexc + bool" where
  "truth (IsnaBool b) = Inr b"
| "truth (IsnaArray []) = Inl (ValueError empty_truth)"
| "truth (IsnaArray [b]) = Inr b"
| "truth (IsnaArray (b # c # bs)) = Inl (ValueError ambiguous_truth)"

text \<open>\<^verbatim>\<open>sep.join(parts)\<close> and \<^verbatim>\<open>s.strip('_')\<close>.\<close>

fun str_join :: "string \<Rightarrow> string list \<Rightarrow> string" where
  "str_join sep [] = []"
| "str_join sep [x] = x"
| "str_join sep (x # y # ys) = x @ sep @ str_join sep (y # ys)"

definition is_underscore :: "char \<Rightarrow> bool" where
  "is_underscore c = (c = CHR ''_'')"

definition strip_underscore :: "string \<Rightarrow> string" where
  "strip_underscore s = rev (dropWhile is_underscore (rev (dropWhile is_underscore s)))"

text \<open>
  A Python dict as an association list in insertion order: assigning to a key that is
  present replaces its value where it stands, a new key goes to the end.
\<close>

fun dict_set :: "pyrecord \<Rightarrow> string \<Rightarrow> cell \<Rightarrow> pyrecord" where
  "dict_set [] k v = [(k, v)]"
| "dict_set ((k', v') # d) k v = (if k' = k then (k', v) # d else (k', v') # dict_set d k v)"

section \<open>The normalizer\<close>

subsection \<open>Series branch\<close>

text \<open>
  \<^verbatim>\<open>
  if pd.isna(val):
      val = None
  elif isinstance(val, (np.floating, np.integer)):
      val = None if np.isnan(val) else val.item()
  \<close>
\<close>

fun narrow_item :: "cell \<Rightarrow> cell" where
  "narrow_item (Scalar (NpFloat64 f)) = (if isnan f then Scalar SNone else Scalar (SFloat f))"
| "narrow_item (Scalar (NpFloating f)) = (if isnan f then Scalar SNone else Scalar (SFloat f))"
| "narrow_item (Scalar (NpInteger n)) = Scalar (SInt n)"
| "narrow_item v = v"

definition series_value :: "cell \<Rightarrow> pyexc + cell" where
  "series_value val =
     (case truth (pd_isna val) of
        Inl e \<Rightarrow> Inl e
      | Inr na \<Rightarrow> Inr (if na then Scalar SNone else narrow_item val))"

text \<open>
  \<^verbatim>\<open>
  result = []
  for idx, val in df.items():
      ...
      result.append({"index": str(idx), "value": val})
  return result
  \<close>
\<close>

fun series_loop :: "(string \<times> cell) list \<Rightarrow> pyrecord list \<Rightarrow> pyexc + pyrecord list" where
  "series_loop [] result = Inr result"
| "series_loop ((idx, val) # rest) result =
     (case series_value val of
        Inl e \<Rightarrow> Inl e
      | Inr v \<Rightarrow> series_loop rest (result @ [[(''index'', Scalar (SStr idx)), (''value'', v)]]))"

subsection \<open>Table branch\<close>

fun df_empty :: "dataframe \<Rightarrow> bool" where
  "df_empty (DataFrame (Index ls) rows) = (rows = [] \<or> ls = [])"
| "df_empty (DataFrame (MultiIndex cs) rows) = (rows = [] \<or> cs = [])"

text \<open>\<^verbatim>\<open>'_'.join(map(str, col)).strip('_')\<close>, on the levels' texts.\<close>

definition flatten_col :: "string list \<Rightarrow> string" where
  "flatten_col col = strip_underscore (str_join ''_'' col)"

text \<open>
  \<^verbatim>\<open>
  if isinstance(df.columns, pd.MultiIndex):
      df = df.copy()
      df.columns = [... for col in df.columns.values]
  \<close>
  The labels the records are built from: those of a flat index as they are, those of a
  \<^verbatim>\<open>MultiIndex\<close> flattened.
\<close>

fun column_labels :: "columns \<Rightarrow> string list" where
  "column_labels (MultiIndex cs) = map flatten_col cs"
| "column_labels (Index ls) = ls"

text \<open>
  \<^verbatim>\<open>df.to_dict(orient="records")\<close>: one dict for each row, built by assigning the cells
  to the column labels from left to right, so that of two columns with one label the
  later cell stays.
\<close>

definition row_to_dict :: "string list \<Rightarrow> cell list \<Rightarrow> pyrecord" where
  "row_to_dict labels row = foldl (\<lambda>d (k, v). dict_set d k v) [] (zip labels row)"

definition to_dict_records :: "string list \<Rightarrow> cell list list \<Rightarrow> pyrecord list" where
  "to_dict_records labels rows = map (row_to_dict labels) rows"

text \<open>
  What the clean-up assigns to \<^verbatim>\<open>record[key]\<close> for one value, if anything, in the order
  of the \<^verbatim>\<open>if\<close>/\<^verbatim>\<open>elif\<close> chain: \<^verbatim>\<open>None\<close> is skipped; a \<^verbatim>\<open>float\<close> (which \<^verbatim>\<open>np.float64\<close>
  is) is replaced by \<^verbatim>\<open>None\<close> when NaN or infinite and left alone otherwise; another
  \<^verbatim>\<open>np.floating\<close> likewise, but replaced by \<^verbatim>\<open>float(value)\<close> when finite; an
  \<^verbatim>\<open>np.integer\<close> is replaced by an \<^verbatim>\<open>int\<close>; a datetime by its \<^verbatim>\<open>isoformat()\<close>, \<^verbatim>\<open>NaT\<close>
  by \<^verbatim>\<open>None\<close>; last, \<^verbatim>\<open>elif pd.isna(value)\<close>.
\<close>

fun clean_assign :: "cell \<Rightarrow> pyexc + cell option" where
  "clean_assign (Scalar SNone) = Inr None"
| "clean_assign (Scalar (SFloat f)) =
     Inr (if isnan f \<or> isinf f then Some (Scalar SNone) else None)"
| "clean_assign (Scalar (NpFloat64 f)) =
     Inr (if isnan f \<or> isinf f then Some (Scalar SNone) else None)"
| "clean_assign (Scalar (NpFloating f)) =
     Inr (Some (if isnan f \<or> isinf f then Scalar SNone else Scalar (SFloat f)))"
| "clean_assign (Scalar (NpInteger n)) = Inr (Some (Scalar (SInt n)))"
| "clean_assign (Scalar (SDatetime stamp)) = Inr (Some (Scalar (SStr stamp)))"
| "clean_assign (Scalar SNaT) = Inr (Some (Scalar SNone))"
| "clean_assign v =
     (case truth (pd_isna v) of
        Inl e \<Rightarrow> Inl e
      | Inr na \<Rightarrow> Inr (if na then Some (Scalar SNone) else None))"

text \<open>
  \<^verbatim>\<open>for key, value in record.items(): ... record[key] = ...\<close>: the loop walks the
  items of the record and assigns into the record itself; the first exception ends it.
\<close>

fun clean_loop :: "(string \<times> cell) list \<Rightarrow> pyrecord \<Rightarrow> pyexc + pyrecord" where
  "clean_loop [] record = Inr record"
| "clean_loop ((key, v) # rest) record =
     (case clean_assign v of
        Inl e \<Rightarrow> Inl e
      | Inr None \<Rightarrow> clean_loop rest record
      | Inr (Some v') \<Rightarrow> clean_loop rest (dict_set record key v'))"

definition clean_record :: "pyrecord \<Rightarrow> pyexc + pyrecord" where
  "clean_record record = clean_loop record record"

text \<open>\<^verbatim>\<open>for record in records: ...\<close>\<close>

fun clean_records :: "pyrecord list \<Rightarrow> pyexc + pyrecord list" where
  "clean_records [] = Inr []"
| "clean_records (record # records) =
     (case clean_record record of
        Inl e \<Rightarrow> Inl e
      | Inr r \<Rightarrow>
          (case clean_records records of
             Inl e \<Rightarrow> Inl e
           | Inr rs \<Rightarrow> Inr (r # rs)))"

subsection \<open>Dispatch\<close>

text \<open>
  \<^verbatim>\<open>
  def safe_convert_to_records(df, default_value=None):
      if default_value is None: default_value = []
      if df is None: return default_value
      if isinstance(df, pd.Series): ...
      if isinstance(df, pd.DataFrame):
          if df.empty: return default_value
          ...
          return records
      if isinstance(df, dict): return [df]
      if isinstance(df, list): return df
      return default_value
  \<close>
  A call without a default passes \<^verbatim>\<open>None\<close>, here \<open>PScalar SNone\<close>.
\<close>

definition safe_convert_to_records :: "pyval \<Rightarrow> pyval \<Rightarrow> pyexc + pyval" where
  "safe_convert_to_records df default_value =
     (let default_value = (if default_value = PScalar SNone then PList [] else default_value) in
      if df = PScalar SNone then Inr default_value
      else
        (case df of
           PSeries items \<Rightarrow>
             (case series_loop items [] of
                Inl e \<Rightarrow> Inl e
              | Inr result \<Rightarrow> Inr (PList (map PDict result)))
         | PDataFrame (DataFrame cols rows) \<Rightarrow>
             if df_empty (DataFrame cols rows) then Inr default_value
             else
               (case clean_records (to_dict_records (column_labels cols) rows) of
                  Inl e \<Rightarrow> Inl e
                | Inr records \<Rightarrow> Inr (PList (map PDict records)))
         | PDict d \<Rightarrow> Inr (PList [PDict d])
         | PList xs \<Rightarrow> Inr (PList xs)
         | PScalar s \<Rightarrow> Inr default_value))"

section \<open>The HTTP layer\<close>

text \<open>
  A route handler calls one upstream accessor, passes what it gets through the
  normalizer and returns the result; what it raises reaches the exception handlers of
  the application. The accessor is a parameter of the handler here: a function from the
  arguments of the call to what the call does, \<open>Inl\<close> an exception raised and \<open>Inr\<close> the
  value returned. Logging leaves no trace in a response and is left out.
\<close>

record response =
  status_code :: nat
  body :: pyval

text \<open>A value a handler returns is sent with status 200.\<close>

definition returned :: "pyval \<Rightarrow> response" where
  "returned v = \<lparr>status_code = 200, body = v\<rparr>"

text \<open>The decimal text of a status code, as an f-string renders it.\<close>

definition digit_char :: "nat \<Rightarrow> char" where
  "digit_char d = ''0123456789'' ! d"

fun str_nat :: "nat \<Rightarrow> string" where
  "str_nat n = (if n < 10 then [digit_char n] else str_nat (n div 10) @ [digit_char (n mod 10)])"

declare str_nat.simps [simp del]

text \<open>
  \<^verbatim>\<open>str(e)\<close>: the message of an exception; of an \<^verbatim>\<open>HTTPException\<close>, status and detail.
\<close>

fun str_exc :: "pyexc \<Rightarrow> string" where
  "str_exc (ValueError m) = m"
| "str_exc (OtherException m) = m"
| "str_exc (HTTPException st d) = str_nat st @ '': '' @ d"

text \<open>
  The two shapes of \<^verbatim>\<open>except\<close> clauses the handlers have:
  \<^verbatim>\<open>
  except ValueError as e:
      raise HTTPException(status_code=400, detail=str(e))
  except Exception as e:
      raise HTTPException(status_code=500, detail=str(e))
  \<close>
  and the second clause alone.
\<close>

definition except_400_500 :: "pyexc + 'a \<Rightarrow> pyexc + 'a" where
  "except_400_500 r =
     (case r of
        Inr v \<Rightarrow> Inr v
      | Inl (ValueError m) \<Rightarrow> Inl (HTTPException 400 m)
      | Inl e \<Rightarrow> Inl (HTTPException 500 (str_exc e)))"

definition except_500 :: "pyexc + 'a \<Rightarrow> pyexc + 'a" where
  "except_500 r =
     (case r of
        Inr v \<Rightarrow> Inr v
      | Inl e \<Rightarrow> Inl (HTTPException 500 (str_exc e)))"

text \<open>
  \<^verbatim>\<open>get_sjc_gold_price\<close> (\<^verbatim>\<open>controllers/gold.py\<close>):
  \<^verbatim>\<open>
  try:
      df = sjc_gold_price(date=date)
      if df is None:
          return []
      return safe_convert_to_records(df)
  except ValueError as e: ...
  except Exception as e: ...
  \<close>
\<close>

definition get_sjc_gold_price ::
  "(string option \<Rightarrow> pyexc + pyval) \<Rightarrow> string option \<Rightarrow> pyexc + response" where
  "get_sjc_gold_price sjc_gold_price date =
     except_400_500
       (case sjc_gold_price date of
          Inl e \<Rightarrow> Inl e
        | Inr df \<Rightarrow>
            if df = PScalar SNone then Inr (returned (PList []))
            else
              (case safe_convert_to_records df (PScalar SNone) of
                 Inl e \<Rightarrow> Inl e
               | Inr records \<Rightarrow> Inr (returned records)))"

text \<open>
  \<^verbatim>\<open>msn_search_symbol\<close> (\<^verbatim>\<open>controllers/crypto.py\<close>) and \<^verbatim>\<open>get_market_indices\<close>
  (\<^verbatim>\<open>controllers/market.py\<close>) have the clause for \<^verbatim>\<open>Exception\<close> only.
\<close>

definition msn_search_symbol ::
  "(string \<times> string option \<times> int \<Rightarrow> pyexc + pyval) \<Rightarrow> string \<Rightarrow> string option \<Rightarrow> int \<Rightarrow> pyexc + response" where
  "msn_search_symbol search_symbol_id query locale limit =
     except_500
       (case search_symbol_id (query, locale, limit) of
          Inl e \<Rightarrow> Inl e
        | Inr df \<Rightarrow>
            (case safe_convert_to_records df (PScalar SNone) of
               Inl e \<Rightarrow> Inl e
             | Inr records \<Rightarrow> Inr (returned records)))"

definition get_market_indices :: "(unit \<Rightarrow> pyexc + pyval) \<Rightarrow> pyexc + response" where
  "get_market_indices get_all_indices =
     except_500
       (case get_all_indices () of
          Inl e \<Rightarrow> Inl e
        | Inr df \<Rightarrow>
            (case safe_convert_to_records df (PScalar SNone) of
               Inl e \<Rightarrow> Inl e
             | Inr records \<Rightarrow> Inr (returned records)))"

text \<open>
  \<^verbatim>\<open>readiness_check\<close>: the timestamp is \<^verbatim>\<open>datetime.now().isoformat()\<close>, the text \<open>now\<close>
  of the clock at the time of the request.
  \<^verbatim>\<open>
  try:
      listing = Listing(source="vci")
      _ = listing.all_symbols()
      return {"ready": True, "timestamp": datetime.now().isoformat()}
  except Exception as e:
      return JSONResponse(status_code=503, content={"ready": False, "error": str(e)})
  \<close>
\<close>

definition readiness_check :: "string \<Rightarrow> (unit \<Rightarrow> pyexc + pyval) \<Rightarrow> pyexc + response" where
  "readiness_check now all_symbols =
     (case all_symbols () of
        Inr symbols \<Rightarrow>
          Inr (returned (PDict [(''ready'', Scalar (SBool True)), (''timestamp'', Scalar (SStr now))]))
      | Inl e \<Rightarrow>
          Inr \<lparr>status_code = 503,
               body = PDict [(''ready'', Scalar (SBool False)), (''error'', Scalar (SStr (str_exc e)))]\<rparr>)"

text \<open>
  The exception handlers \<^verbatim>\<open>api_server.py\<close> registers, and the model
  \<^verbatim>\<open>ErrorResponse(error, detail, timestamp).model_dump()\<close> they answer with.
\<close>

definition ErrorResponse :: "string \<Rightarrow> string \<Rightarrow> string \<Rightarrow> pyval" where
  "ErrorResponse error detail timestamp =
     PDict [(''error'', Scalar (SStr error)), (''detail'', Scalar (SStr detail)),
            (''timestamp'', Scalar (SStr timestamp))]"

definition http_exception_handler :: "string \<Rightarrow> nat \<Rightarrow> string \<Rightarrow> response" where
  "http_exception_handler now status detail =
     \<lparr>status_code = status, body = ErrorResponse (''HTTP '' @ str_nat status) detail now\<rparr>"

definition general_exception_handler :: "string \<Rightarrow> pyexc \<Rightarrow> response" where
  "general_exception_handler now exc =
     \<lparr>status_code = 500, body = ErrorResponse ''Internal Server Error'' (str_exc exc) now\<rparr>"

text \<open>
  The application of \<^verbatim>\<open>api_server.py\<close>: what a handler returns is the response, an
  \<^verbatim>\<open>HTTPException\<close> goes to \<open>http_exception_handler\<close>, any other exception to
  \<open>general_exception_handler\<close>.
\<close>

definition api_server :: "string \<Rightarrow> pyexc + response \<Rightarrow> response" where
  "api_server now outcome =
     (case outcome of
        Inr r \<Rightarrow> r
      | Inl (HTTPException status detail) \<Rightarrow> http_exception_handler now status detail
      | Inl e \<Rightarrow> general_exception_handler now e)"

subsection \<open>Ticker symbols\<close>









































text \<open>
  Accessors for the examples: one that raises a given exception whatever it is called
  with, and two that raise a \<^verbatim>\<open>ValueError\<close> whose message is the symbol they were called
  with.
\<close>

definition raising :: "pyexc \<Rightarrow> 'a \<Rightarrow> pyexc + 'b" where
  "raising e args = Inl e"



section \<open>The normalizer on a store\<close>

text \<open>
  Whether the normalizer writes to an object of its caller's depends on which objects
  are shared, so here it runs on an explicit store. A value is an immediate scalar or a
  reference to an object; the store is the list of all objects, the address of an
  object its position; a new object is put at the end. The objects are the mutable ones
  the normalizer meets: series, tables, dicts and lists.
\<close>

datatype ref = Imm scalar | Ref nat

datatype obj =
    OSeries "(string \<times> cell) list"
  | OFrame columns "cell list list"
  | ODict pyrecord
  | OList "ref list"

type_synonym heap = "obj list"

definition alloc :: "heap \<Rightarrow> obj \<Rightarrow> ref \<times> heap" where
  "alloc h ob = (Ref (length h), h @ [ob])"

definition lookup :: "heap \<Rightarrow> ref \<Rightarrow> obj option" where
  "lookup h r = (case r of Imm s \<Rightarrow> None | Ref a \<Rightarrow> if a < length h then Some (h ! a) else None)"

definition store :: "heap \<Rightarrow> ref \<Rightarrow> obj \<Rightarrow> heap" where
  "store h r ob = (case r of Imm s \<Rightarrow> h | Ref a \<Rightarrow> h[a := ob])"

text \<open>\<^verbatim>\<open>l.append(r)\<close>, \<^verbatim>\<open>d[key] = v\<close> and \<^verbatim>\<open>f.columns = cols\<close>.\<close>

definition list_append :: "heap \<Rightarrow> ref \<Rightarrow> ref \<Rightarrow> heap" where
  "list_append h l r =
     (case lookup h l of Some (OList rs) \<Rightarrow> store h l (OList (rs @ [r])) | _ \<Rightarrow> h)"

definition dict_assign :: "heap \<Rightarrow> ref \<Rightarrow> string \<Rightarrow> cell \<Rightarrow> heap" where
  "dict_assign h d key v =
     (case lookup h d of Some (ODict items) \<Rightarrow> store h d (ODict (dict_set items key v)) | _ \<Rightarrow> h)"

definition set_columns :: "heap \<Rightarrow> ref \<Rightarrow> columns \<Rightarrow> heap" where
  "set_columns h f cols =
     (case lookup h f of Some (OFrame old rows) \<Rightarrow> store h f (OFrame cols rows) | _ \<Rightarrow> h)"

text \<open>The loop of the series branch: a new dict for each entry, appended to \<open>result\<close>.\<close>

fun series_loop_h :: "(string \<times> cell) list \<Rightarrow> ref \<Rightarrow> heap \<Rightarrow> pyexc option \<times> heap" where
  "series_loop_h [] result h = (None, h)"
| "series_loop_h ((idx, val) # rest) result h =
     (case series_value val of
        Inl e \<Rightarrow> (Some e, h)
      | Inr v \<Rightarrow>
          (case alloc h (ODict [(''index'', Scalar (SStr idx)), (''value'', v)]) of
             (entry, h1) \<Rightarrow> series_loop_h rest result (list_append h1 result entry)))"

text \<open>\<^verbatim>\<open>to_dict(orient="records")\<close> makes a new dict for each row.\<close>

fun to_dict_h :: "pyrecord list \<Rightarrow> heap \<Rightarrow> ref list \<times> heap" where
  "to_dict_h [] h = ([], h)"
| "to_dict_h (d # ds) h =
     (case alloc h (ODict d) of
        (entry, h1) \<Rightarrow> (case to_dict_h ds h1 of (entries, h2) \<Rightarrow> (entry # entries, h2)))"

text \<open>The clean-up assigns into the dict the loop variable \<open>record\<close> refers to.\<close>

fun clean_loop_h :: "(string \<times> cell) list \<Rightarrow> ref \<Rightarrow> heap \<Rightarrow> pyexc option \<times> heap" where
  "clean_loop_h [] rcd h = (None, h)"
| "clean_loop_h ((key, v) # rest) rcd h =
     (case clean_assign v of
        Inl e \<Rightarrow> (Some e, h)
      | Inr None \<Rightarrow> clean_loop_h rest rcd h
      | Inr (Some v') \<Rightarrow> clean_loop_h rest rcd (dict_assign h rcd key v'))"

fun clean_records_h :: "ref list \<Rightarrow> heap \<Rightarrow> pyexc option \<times> heap" where
  "clean_records_h [] h = (None, h)"
| "clean_records_h (rcd # rest) h =
     (case lookup h rcd of
        Some (ODict items) \<Rightarrow>
          (case clean_loop_h items rcd h of
             (Some e, h1) \<Rightarrow> (Some e, h1)
           | (None, h1) \<Rightarrow> clean_records_h rest h1)
      | _ \<Rightarrow> clean_records_h rest h)"

text \<open>
  \<^verbatim>\<open>records = df.to_dict(orient="records")\<close> and the clean-up, for the table \<open>df\<close>
  refers to at that point, whose columns are a flat index then.
\<close>

definition table_records_h :: "ref \<Rightarrow> heap \<Rightarrow> (pyexc + ref) \<times> heap" where
  "table_records_h df h =
     (case lookup h df of
        Some (OFrame (Index ls) rows) \<Rightarrow>
          (case to_dict_h (to_dict_records ls rows) h of
             (entries, h1) \<Rightarrow>
               (case alloc h1 (OList entries) of
                  (records, h2) \<Rightarrow>
                    (case clean_records_h entries h2 of
                       (Some e, h3) \<Rightarrow> (Inl e, h3)
                     | (None, h3) \<Rightarrow> (Inr records, h3))))
      | _ \<Rightarrow> (Inl (OtherException ''AttributeError''), h))"

text \<open>
  The whole function. \<^verbatim>\<open>default_value = []\<close> makes a new list; \<^verbatim>\<open>df = df.copy()\<close> makes
  a new table and binds the local name to it, and \<^verbatim>\<open>df.columns = ...\<close> assigns to that
  one; \<^verbatim>\<open>[df]\<close> is a new list holding the caller's dict.
\<close>

definition safe_convert_to_records_h :: "heap \<Rightarrow> ref \<Rightarrow> ref \<Rightarrow> (pyexc + ref) \<times> heap" where
  "safe_convert_to_records_h h0 df default_value =
     (case (if default_value = Imm SNone then alloc h0 (OList []) else (default_value, h0)) of
        (default_value, h) \<Rightarrow>
          (case lookup h df of
             None \<Rightarrow> (Inr default_value, h)
           | Some (OSeries items) \<Rightarrow>
               (case alloc h (OList []) of
                  (result, h1) \<Rightarrow>
                    (case series_loop_h items result h1 of
                       (Some e, h2) \<Rightarrow> (Inl e, h2)
                     | (None, h2) \<Rightarrow> (Inr result, h2)))
           | Some (OFrame cols rows) \<Rightarrow>
               if df_empty (DataFrame cols rows) then (Inr default_value, h)
               else
                 (case cols of
                    MultiIndex cs \<Rightarrow>
                      (case alloc h (OFrame cols rows) of
                         (copy, h1) \<Rightarrow>
                           table_records_h copy (set_columns h1 copy (Index (map flatten_col cs))))
                  | Index ls \<Rightarrow> table_records_h df h)
           | Some (ODict d) \<Rightarrow>
               (case alloc h (OList [df]) of (wrapped, h1) \<Rightarrow> (Inr wrapped, h1))
           | Some (OList xs) \<Rightarrow> (Inr df, h)))"

section \<open>Notions the properties are stated with\<close>

text \<open>
  Numeric narrowing, in the words of the specification: a NumPy number becomes the
  plain number of the same magnitude. \<open>null_or_narrowed\<close> is the value the specification
  gives an entry of a series: null for a missing one, the narrowed scalar otherwise.
\<close>

fun narrowed :: "scalar \<Rightarrow> scalar" where
  "narrowed (NpFloat64 f) = SFloat f"
| "narrowed (NpFloating f) = SFloat f"
| "narrowed (NpInteger n) = SInt n"
| "narrowed s = s"

definition null_or_narrowed :: "scalar \<Rightarrow> scalar" where
  "null_or_narrowed s = (if isna_scalar s then SNone else narrowed s)"

text \<open>A floating-point NaN or infinity; a floating-point NaN.\<close>

fun nan_or_inf :: "cell \<Rightarrow> bool" where
  "nan_or_inf (Scalar (SFloat f)) = (isnan f \<or> isinf f)"
| "nan_or_inf (Scalar (NpFloat64 f)) = (isnan f \<or> isinf f)"
| "nan_or_inf (Scalar (NpFloating f)) = (isnan f \<or> isinf f)"
| "nan_or_inf _ = False"

fun nan_cell :: "cell \<Rightarrow> bool" where
  "nan_cell (Scalar (SFloat f)) = isnan f"
| "nan_cell (Scalar (NpFloat64 f)) = isnan f"
| "nan_cell (Scalar (NpFloating f)) = isnan f"
| "nan_cell _ = False"

text \<open>The field values of all records of a result.\<close>

fun field_values :: "pyval \<Rightarrow> cell list" where
  "field_values (PList xs) = concat (map field_values xs)"
| "field_values (PDict d) = map snd d"
| "field_values _ = []"

text \<open>
  A cell \<^verbatim>\<open>pd.isna\<close> has a truth value for: a scalar, a dict, or a list of one element.
\<close>

fun unambiguous :: "cell \<Rightarrow> bool" where
  "unambiguous (ListCell xs) = (length xs = 1)"
| "unambiguous _ = True"

text \<open>The entries of a series, the cells of a table.\<close>

fun cells_of :: "pyval \<Rightarrow> cell list" where
  "cells_of (PSeries items) = map snd items"
| "cells_of (PDataFrame (DataFrame cols rows)) = concat rows"
| "cells_of _ = []"

text \<open>
  Flattening in the words of the specification: the non-empty levels, joined with an
  underscore.
\<close>

definition flatten_nonempty :: "string list \<Rightarrow> string" where
  "flatten_nonempty col = str_join ''_'' (filter (\<lambda>level. level \<noteq> []) col)"




text \<open>
  A reference is fresh above \<open>n\<close> when it is to none of the first \<open>n\<close> objects; a store
  keeps the first \<open>n\<close> objects of another when it has them unchanged.
\<close>

definition fresh :: "nat \<Rightarrow> ref \<Rightarrow> bool" where
  "fresh n r = (case r of Imm s \<Rightarrow> True | Ref a \<Rightarrow> n \<le> a)"

definition keeps :: "nat \<Rightarrow> heap \<Rightarrow> heap \<Rightarrow> bool" where
  "keeps n h h' = (length h \<le> length h' \<and> take n h' = take n h)"

text \<open>
  For comparing the two versions of the normalizer: the dict a reference is to, the
  value of a list of dicts, and whether a reference is to a dict.
\<close>

definition dict_at :: "heap \<Rightarrow> ref \<Rightarrow> pyrecord" where
  "dict_at h r = (case lookup h r of Some (ODict d) \<Rightarrow> d | _ \<Rightarrow> [])"

definition records_at :: "heap \<Rightarrow> ref \<Rightarrow> pyval" where
  "records_at h r =
     (case lookup h r of
        Some (OList entries) \<Rightarrow> PList (map (\<lambda>e. PDict (dict_at h e)) entries)
      | _ \<Rightarrow> PList [])"

definition dict_ref :: "heap \<Rightarrow> ref \<Rightarrow> bool" where
  "dict_ref h r = (case lookup h r of Some (ODict d) \<Rightarrow> True | _ \<Rightarrow> False)"

text \<open>Inputs for the examples.\<close>

definition example_frame :: dataframe where
  "example_frame =
     DataFrame (Index [''date'', ''close''])
       [[Scalar (SDatetime ''2024-01-02T00:00:00''), Scalar (SFloat (Finite (21 / 2)))],
        [Scalar SNaT, Scalar (SFloat NaN)],
        [Scalar SNone, Scalar (NpFloating NegInf)]]"

definition example_records :: pyval where
  "example_records =
     PList
       [PDict [(''date'', Scalar (SStr ''2024-01-02T00:00:00'')),
               (''close'', Scalar (SFloat (Finite (21 / 2))))],
        PDict [(''date'', Scalar SNone), (''close'', Scalar SNone)],
        PDict [(''date'', Scalar SNone), (''close'', Scalar SNone)]]"

definition example_series :: "(string \<times> cell) list" where
  "example_series =
     [(''a'', Scalar (NpFloat64 (Finite 1))), (''b'', Scalar (SFloat NaN)),
      (''c'', Scalar (NpInteger 7))]"

definition example_series_records :: pyval where
  "example_series_records =
     PList
       [PDict [(''index'', Scalar (SStr ''a'')), (''value'', Scalar (SFloat (Finite 1)))],
        PDict [(''index'', Scalar (SStr ''b'')), (''value'', Scalar SNone)],
        PDict [(''index'', Scalar (SStr ''c'')), (''value'', Scalar (SInt 7))]]"

section \<open>Properties of the normalizer\<close>

subsection \<open>Lists and dicts pass through\<close>

text \<open>
  C8. A list is handed back as it is: normalizing an input that is already a sequence of
  flat mappings returns that sequence, and normalizing the result once more returns it
  again.
\<close>

theorem normalize_list_unchanged:
  "safe_convert_to_records (PList xs) dv = Inr (PList xs) \<and>
   (case safe_convert_to_records (PList xs) dv of
      Inl e \<Rightarrow> False
    | Inr out \<Rightarrow> safe_convert_to_records out dv' = Inr out)"
  by (simp add: safe_convert_to_records_def)

subsection \<open>Series\<close>

lemma series_value_scalar: "series_value (Scalar s) = Inr (Scalar (null_or_narrowed s))"
  by (cases s) (auto simp: series_value_def null_or_narrowed_def)

lemma series_loop_scalars:
  "series_loop (map (\<lambda>(idx, s). (idx, Scalar s)) entries) acc =
   Inr (acc @ map (\<lambda>(idx, s). [(''index'', Scalar (SStr idx)), (''value'', Scalar (null_or_narrowed s))]) entries)"
  by (induction entries arbitrary: acc) (auto simp: series_value_scalar)

text \<open>
  C3. A series of N entries with scalar values gives N records in the order of the
  series, each with the two keys \<open>index\<close>, the text of the index key, and \<open>value\<close>, the
  scalar narrowed, or null where it is missing.
\<close>

theorem series_records:
  "safe_convert_to_records (PSeries (map (\<lambda>(idx, s). (idx, Scalar s)) entries)) dv =
   Inr (PList (map (\<lambda>(idx, s).
          PDict [(''index'', Scalar (SStr idx)), (''value'', Scalar (null_or_narrowed s))]) entries))"
  by (simp add: safe_convert_to_records_def series_loop_scalars[unfolded case_prod_unfold]
      case_prod_unfold comp_def)

lemma absent_or_empty_table_default:
  "safe_convert_to_records (PScalar SNone) dv = Inr (if dv = PScalar SNone then PList [] else dv)"
  "safe_convert_to_records (PDataFrame (DataFrame cols [])) dv =
     Inr (if dv = PScalar SNone then PList [] else dv)"
  "safe_convert_to_records (PDataFrame (DataFrame (Index []) rows)) dv =
     Inr (if dv = PScalar SNone then PList [] else dv)"
  "safe_convert_to_records (PDataFrame (DataFrame (MultiIndex []) rows)) dv =
     Inr (if dv = PScalar SNone then PList [] else dv)"
  by (cases cols; simp add: safe_convert_to_records_def)+

text \<open>
  C5. An absent input and an empty table give the default (lemma
  \<open>absent_or_empty_table_default\<close>). An empty series does not: the series branch has no
  test for emptiness and returns the empty list it has built, whatever default the caller
  gave.
\<close>

theorem empty_series_ignores_default:
  "safe_convert_to_records (PSeries []) (PList [PDict [(''status'', Scalar (SStr ''no data''))]]) =
   Inr (PList [])"
  by (simp add: safe_convert_to_records_def)

subsection \<open>No NaN, no infinity\<close>

lemma field_values_records: "field_values (PList (map PDict recs)) = concat (map (map snd) recs)"
  by (induction recs) auto

lemma dict_set_keys: "fst ` set (dict_set d k v) = insert k (fst ` set d)"
  by (induction d) (force split: if_splits)+

lemma dict_set_distinct: "distinct (map fst d) \<Longrightarrow> distinct (map fst (dict_set d k v))"
proof (induction d)
  case Nil
  then show ?case by simp
next
  case (Cons p d)
  obtain k' v' where p: "p = (k', v')" by (cases p)
  from Cons have "distinct (map fst (dict_set d k v))" by simp
  moreover have "k' \<noteq> k \<Longrightarrow> k' \<notin> fst ` set (dict_set d k v)"
    using Cons.prems p by (simp add: dict_set_keys)
  ultimately show ?case using Cons.prems p by auto
qed

lemma dict_set_set:
  "distinct (map fst d) \<Longrightarrow> set (dict_set d k v) = insert (k, v) {p \<in> set d. fst p \<noteq> k}"
proof (induction d)
  case Nil
  then show ?case by simp
next
  case (Cons p d)
  obtain k' v' where p: "p = (k', v')" by (cases p)
  show ?case
  proof (cases "k' = k")
    case True
    have "\<forall>q\<in>set d. fst q \<noteq> k" using Cons.prems p True by (auto simp: image_iff)
    then show ?thesis using p True by auto
  next
    case False
    then show ?thesis using Cons p by auto
  qed
qed

lemma dict_set_values: "snd ` set (dict_set d k v) \<subseteq> insert v (snd ` set d)"
  by (induction d) (force split: if_splits)+

lemma row_to_dict_fold_distinct:
  "distinct (map fst d) \<Longrightarrow> distinct (map fst (foldl (\<lambda>d (k, v). dict_set d k v) d kvs))"
  by (induction kvs arbitrary: d) (auto simp: dict_set_distinct)

lemma row_to_dict_distinct: "distinct (map fst (row_to_dict labels row))"
  by (simp add: row_to_dict_def row_to_dict_fold_distinct)

lemma row_to_dict_fold_values:
  "snd ` set (foldl (\<lambda>d (k, v). dict_set d k v) d kvs) \<subseteq> snd ` set d \<union> snd ` set kvs"
proof (induction kvs arbitrary: d)
  case Nil
  then show ?case by simp
next
  case (Cons kv kvs)
  obtain k v where kv: "kv = (k, v)" by (cases kv)
  have "snd ` set (foldl (\<lambda>d (k, v). dict_set d k v) (dict_set d k v) kvs)
        \<subseteq> snd ` set (dict_set d k v) \<union> snd ` set kvs"
    by (rule Cons.IH)
  also have "\<dots> \<subseteq> insert v (snd ` set d) \<union> snd ` set kvs"
    using dict_set_values[of d k v] by auto
  finally show ?case using kv by auto
qed

lemma row_to_dict_values: "snd ` set (row_to_dict labels row) \<subseteq> set row"
proof -
  have "snd ` set (zip labels row) \<subseteq> set row"
    by (auto dest: set_zip_rightD)
  then show ?thesis
    using row_to_dict_fold_values[of "[]" "zip labels row"] by (auto simp: row_to_dict_def)
qed

text \<open>
  What the clean-up assigns is never NaN or infinite, and what it leaves in place is
  neither.
\<close>

lemma clean_assign_some: "clean_assign v = Inr (Some v') \<Longrightarrow> \<not> nan_or_inf v'"
  by (induction v rule: clean_assign.induct) (auto split: if_splits sum.splits)

lemma clean_assign_none: "clean_assign v = Inr None \<Longrightarrow> \<not> nan_or_inf v"
  by (induction v rule: clean_assign.induct) (auto split: if_splits sum.splits)

text \<open>
  The invariant of the loop: every value of the record that is NaN or infinite is still
  among the items to come.
\<close>

lemma clean_loop_clean:
  "clean_loop items rcd = Inr out \<Longrightarrow> distinct (map fst rcd) \<Longrightarrow>
   (\<forall>p\<in>set rcd. nan_or_inf (snd p) \<longrightarrow> p \<in> set items) \<Longrightarrow>
   (\<forall>p\<in>set out. \<not> nan_or_inf (snd p))"
proof (induction items arbitrary: rcd)
  case Nil
  then show ?case by auto
next
  case (Cons item items)
  obtain key v where item: "item = (key, v)" by (cases item)
  show ?case
  proof (cases "clean_assign v")
    case (Inl e)
    then show ?thesis using Cons.prems item by simp
  next
    case (Inr a)
    show ?thesis
    proof (cases a)
      case None
      have ok: "\<not> nan_or_inf v" using Inr None by (simp add: clean_assign_none)
      have run: "clean_loop items rcd = Inr out" using Cons.prems(1) item Inr None by simp
      have "\<forall>p\<in>set rcd. nan_or_inf (snd p) \<longrightarrow> p \<in> set items"
        using Cons.prems(3) item ok by auto
      from Cons.IH[OF run Cons.prems(2) this] show ?thesis .
    next
      case (Some v')
      have ok: "\<not> nan_or_inf v'" using Inr Some by (simp add: clean_assign_some)
      have run: "clean_loop items (dict_set rcd key v') = Inr out"
        using Cons.prems(1) item Inr Some by simp
      have d: "distinct (map fst (dict_set rcd key v'))"
        using Cons.prems(2) by (rule dict_set_distinct)
      have "\<forall>p\<in>set (dict_set rcd key v'). nan_or_inf (snd p) \<longrightarrow> p \<in> set items"
        using Cons.prems(3) item ok by (auto simp: dict_set_set[OF Cons.prems(2)])
      from Cons.IH[OF run d this] show ?thesis .
    qed
  qed
qed

lemma clean_record_clean:
  "clean_record rcd = Inr out \<Longrightarrow> distinct (map fst rcd) \<Longrightarrow> \<forall>p\<in>set out. \<not> nan_or_inf (snd p)"
  unfolding clean_record_def by (rule clean_loop_clean) auto

lemma clean_records_clean:
  "clean_records records = Inr out \<Longrightarrow> \<forall>r\<in>set records. distinct (map fst r) \<Longrightarrow>
   \<forall>r\<in>set out. \<forall>p\<in>set r. \<not> nan_or_inf (snd p)"
proof (induction records arbitrary: out)
  case Nil
  then show ?case by simp
next
  case (Cons r rs)
  from Cons.prems(1) obtain r' rs' where
    r': "clean_record r = Inr r'" and rs': "clean_records rs = Inr rs'" and out: "out = r' # rs'"
    by (auto split: sum.splits)
  have "\<forall>p\<in>set r'. \<not> nan_or_inf (snd p)"
    using clean_record_clean[OF r'] Cons.prems(2) by simp
  moreover have "\<forall>r\<in>set rs'. \<forall>p\<in>set r. \<not> nan_or_inf (snd p)"
    using Cons.IH[OF rs'] Cons.prems(2) by simp
  ultimately show ?case using out by simp
qed

lemma table_values_clean:
  assumes "safe_convert_to_records (PDataFrame frame) dv = Inr out" "\<not> df_empty frame"
  shows "\<forall>v\<in>set (field_values out). \<not> nan_or_inf v"
proof -
  obtain cols rows where frame: "frame = DataFrame cols rows" by (cases frame)
  from assms frame obtain recs where
    recs: "clean_records (to_dict_records (column_labels cols) rows) = Inr recs"
    and out: "out = PList (map PDict recs)"
    by (auto simp: safe_convert_to_records_def split: sum.splits if_splits)
  have "\<forall>r\<in>set (to_dict_records (column_labels cols) rows). distinct (map fst r)"
    by (auto simp: to_dict_records_def row_to_dict_distinct)
  from clean_records_clean[OF recs this] show ?thesis
    by (auto simp: out field_values_records)
qed

lemma series_value_not_nan: "series_value v = Inr v' \<Longrightarrow> \<not> nan_cell v'"
  by (cases v rule: narrow_item.cases)
     (auto simp: series_value_def split: sum.splits if_splits)

lemma series_loop_not_nan:
  "series_loop items acc = Inr out \<Longrightarrow> \<forall>r\<in>set acc. \<forall>p\<in>set r. \<not> nan_cell (snd p) \<Longrightarrow>
   \<forall>r\<in>set out. \<forall>p\<in>set r. \<not> nan_cell (snd p)"
proof (induction items arbitrary: acc)
  case Nil
  then show ?case by simp
next
  case (Cons item items)
  obtain idx v where item: "item = (idx, v)" by (cases item)
  from Cons.prems(1) item obtain v' where v': "series_value v = Inr v'"
    and run: "series_loop items (acc @ [[(''index'', Scalar (SStr idx)), (''value'', v')]]) = Inr out"
    by (auto split: sum.splits)
  have "\<not> nan_cell v'" using v' by (rule series_value_not_nan)
  then have "\<forall>r\<in>set (acc @ [[(''index'', Scalar (SStr idx)), (''value'', v')]]). \<forall>p\<in>set r. \<not> nan_cell (snd p)"
    using Cons.prems(2) by auto
  from Cons.IH[OF run this] show ?case .
qed

lemma series_values_not_nan:
  assumes "safe_convert_to_records (PSeries items) dv = Inr out"
  shows "\<forall>v\<in>set (field_values out). \<not> nan_cell v"
proof -
  from assms obtain recs where recs: "series_loop items [] = Inr recs" and out: "out = PList (map PDict recs)"
    by (auto simp: safe_convert_to_records_def split: sum.splits)
  from series_loop_not_nan[OF recs] show ?thesis by (auto simp: out field_values_records)
qed

lemma example_frame_records:
  "safe_convert_to_records (PDataFrame example_frame) (PScalar SNone) = Inr example_records"
  by (simp add: safe_convert_to_records_def example_frame_def example_records_def
      to_dict_records_def row_to_dict_def clean_record_def)

lemma example_series_result:
  "safe_convert_to_records (PSeries example_series) (PScalar SNone) = Inr example_series_records"
  by (simp add: safe_convert_to_records_def example_series_def example_series_records_def
      series_value_def)

text \<open>
  The clean-up of the table branch assigns null to every floating-point NaN and to every
  infinity; the series branch gives null for a NaN.
\<close>

lemma table_nulls_nan_and_infinity: "nan_or_inf v \<Longrightarrow> clean_assign v = Inr (Some (Scalar SNone))"
  by (cases v rule: nan_or_inf.cases) auto

lemma series_nulls_nan: "nan_cell v \<Longrightarrow> series_value v = Inr (Scalar SNone)"
  by (cases v rule: nan_cell.cases) (auto simp: series_value_def)

text \<open>A list is handed back with the values it has, a NaN among them.\<close>

lemma list_values_passed_through:
  "safe_convert_to_records (PList [PDict [(''close'', Scalar (SFloat NaN))]]) (PScalar SNone) =
     Inr (PList [PDict [(''close'', Scalar (SFloat NaN))]])"
  by (simp add: safe_convert_to_records_def)

text \<open>
  C1. No emitted field value is a floating-point NaN or an infinity, in the series branch
  as in the table branch: this fails in the series branch. Its loop tests \<^verbatim>\<open>pd.isna(val)\<close>
  and then \<^verbatim>\<open>np.isnan(val)\<close>, and never \<^verbatim>\<open>np.isinf\<close>, so a series holding an infinity, as a
  \<^verbatim>\<open>float\<close> or as an \<^verbatim>\<open>np.float64\<close>, gives records whose \<open>value\<close> is that infinity. The table
  branch, given the same two values as a column, gives null for both (and in general:
  lemmas \<open>table_nulls_nan_and_infinity\<close> and \<open>table_values_clean\<close>).
\<close>

theorem series_emits_infinity:
  "safe_convert_to_records
     (PSeries [(''a'', Scalar (SFloat PosInf)), (''b'', Scalar (NpFloat64 NegInf))]) (PScalar SNone) =
     Inr (PList [PDict [(''index'', Scalar (SStr ''a'')), (''value'', Scalar (SFloat PosInf))],
                 PDict [(''index'', Scalar (SStr ''b'')), (''value'', Scalar (SFloat NegInf))]]) \<and>
   nan_or_inf (Scalar (SFloat PosInf)) \<and> nan_or_inf (Scalar (SFloat NegInf)) \<and>
   safe_convert_to_records
     (PDataFrame (DataFrame (Index [''value''])
        [[Scalar (SFloat PosInf)], [Scalar (NpFloat64 NegInf)]])) (PScalar SNone) =
     Inr (PList [PDict [(''value'', Scalar SNone)], PDict [(''value'', Scalar SNone)]])"
  by (simp add: safe_convert_to_records_def series_value_def to_dict_records_def row_to_dict_def
      clean_record_def)

subsection \<open>When the normalizer returns\<close>

lemma unambiguous_truth: "unambiguous v \<Longrightarrow> \<exists>b. truth (pd_isna v) = Inr b"
proof (cases v)
  case (ListCell xs)
  assume "unambiguous v"
  with ListCell obtain x where "xs = [x]" by (cases xs) auto
  with ListCell show ?thesis by simp
qed auto

lemma series_value_returns: "unambiguous v \<Longrightarrow> \<exists>v'. series_value v = Inr v'"
  using unambiguous_truth[of v] by (auto simp: series_value_def)

lemma series_loop_returns:
  "list_all unambiguous (map snd items) \<Longrightarrow> \<exists>out. series_loop items acc = Inr out"
proof (induction items arbitrary: acc)
  case Nil
  then show ?case by simp
next
  case (Cons item items)
  obtain idx v where item: "item = (idx, v)" by (cases item)
  from Cons.prems item obtain v' where "series_value v = Inr v'"
    using series_value_returns[of v] by auto
  then show ?case using Cons item by simp
qed

lemma clean_assign_returns: "unambiguous v \<Longrightarrow> \<exists>a. clean_assign v = Inr a"
  using unambiguous_truth[of v]
  by (induction v rule: clean_assign.induct) auto

lemma clean_loop_returns:
  "list_all unambiguous (map snd items) \<Longrightarrow> \<exists>out. clean_loop items rcd = Inr out"
proof (induction items arbitrary: rcd)
  case Nil
  then show ?case by simp
next
  case (Cons item items)
  obtain key v where item: "item = (key, v)" by (cases item)
  from Cons.prems item obtain a where "clean_assign v = Inr a"
    using clean_assign_returns[of v] by auto
  then show ?case using Cons item by (cases a) auto
qed

lemma clean_records_returns:
  "\<forall>r\<in>set records. list_all unambiguous (map snd r) \<Longrightarrow> \<exists>out. clean_records records = Inr out"
proof (induction records)
  case Nil
  then show ?case by simp
next
  case (Cons r rs)
  then obtain r' where "clean_record r = Inr r'"
    using clean_loop_returns[of r r] by (auto simp: clean_record_def)
  moreover from Cons obtain rs' where "clean_records rs = Inr rs'" by auto
  ultimately show ?case by simp
qed

lemma to_dict_records_unambiguous:
  assumes "list_all unambiguous (concat rows)"
  shows "\<forall>r\<in>set (to_dict_records labels rows). list_all unambiguous (map snd r)"
proof
  fix r assume "r \<in> set (to_dict_records labels rows)"
  then obtain row where row: "row \<in> set rows" and r: "r = row_to_dict labels row"
    by (auto simp: to_dict_records_def)
  have "snd ` set r \<subseteq> set row" unfolding r by (rule row_to_dict_values)
  moreover have "\<forall>c\<in>set row. unambiguous c" using assms row by (auto simp: list_all_iff)
  ultimately show "list_all unambiguous (map snd r)" by (auto simp: list_all_iff)
qed

lemma returns_on_unambiguous_cells:
  assumes "list_all unambiguous (cells_of df)"
  shows "\<exists>out. safe_convert_to_records df dv = Inr out"
proof (cases df)
  case (PSeries items)
  with assms obtain out where "series_loop items [] = Inr out"
    using series_loop_returns[of items "[]"] by auto
  with PSeries show ?thesis by (simp add: safe_convert_to_records_def)
next
  case (PDataFrame frame)
  obtain cols rows where frame: "frame = DataFrame cols rows" by (cases frame)
  from assms PDataFrame frame have "list_all unambiguous (concat rows)" by simp
  then obtain out where "clean_records (to_dict_records (column_labels cols) rows) = Inr out"
    using clean_records_returns to_dict_records_unambiguous by blast
  with PDataFrame frame show ?thesis by (simp add: safe_convert_to_records_def)
qed (simp_all add: safe_convert_to_records_def)

lemma other_shape_default:
  "safe_convert_to_records (PScalar s) dv = Inr (if dv = PScalar SNone then PList [] else dv)"
  by (simp add: safe_convert_to_records_def)

text \<open>
  C2, as the code has it. On every input whose entries and cells are scalars, dicts or
  lists of one element the normalizer returns a value; an input that is none of
  \<^verbatim>\<open>None\<close>, series, table, dict and list gives the default, the empty list when the
  caller gave none. The normalizer is a function of its two arguments: it reads nothing
  else and every call with the same arguments has the same result.
\<close>

theorem normalizer_returns:
  "(list_all unambiguous (cells_of df) \<longrightarrow> (\<exists>out. safe_convert_to_records df dv = Inr out)) \<and>
   safe_convert_to_records (PScalar s) dv = Inr (if dv = PScalar SNone then PList [] else dv)"
  using returns_on_unambiguous_cells[of df dv] other_shape_default[of s dv] by simp

theorem normalizer_returns_witness:
  "list_all unambiguous (cells_of (PDataFrame example_frame)) \<and>
   (\<exists>out. safe_convert_to_records (PDataFrame example_frame) (PScalar SNone) = Inr out)"
proof -
  have u: "list_all unambiguous (cells_of (PDataFrame example_frame))"
    by (simp add: example_frame_def)
  from normalizer_returns[of "PDataFrame example_frame" "PScalar SNone"] u
  have "\<exists>out. safe_convert_to_records (PDataFrame example_frame) (PScalar SNone) = Inr out"
    by blast
  with u show ?thesis by simp
qed

text \<open>
  C2 as stated fails on a series with an entry that is a list of two elements:
  \<^verbatim>\<open>pd.isna\<close> answers with an array of two booleans, and \<^verbatim>\<open>if\<close> raises \<^verbatim>\<open>ValueError\<close> on
  it. The same happens on a table with such a cell (lemma \<open>list_valued_cell_raises\<close>).
\<close>

theorem list_valued_entry_raises:
  "safe_convert_to_records (PSeries [(''0'', ListCell [SInt 1, SInt 2])]) (PScalar SNone) =
   Inl (ValueError ambiguous_truth)"
  by (simp add: safe_convert_to_records_def series_value_def)

lemma list_valued_cell_raises:
  "safe_convert_to_records
     (PDataFrame (DataFrame (Index [''tags'']) [[ListCell [SStr ''a'', SStr ''b'']]]))
     (PScalar SNone) =
   Inl (ValueError ambiguous_truth)"
  by (simp add: safe_convert_to_records_def to_dict_records_def row_to_dict_def clean_record_def)

subsection \<open>Hierarchical column headers\<close>

lemma strip_underscore_lead: "strip_underscore (CHR ''_'' # s) = strip_underscore s"
  by (simp add: strip_underscore_def is_underscore_def)

lemma strip_underscore_trail: "strip_underscore (s @ ''_'') = strip_underscore s"
proof (cases "\<forall>c\<in>set s. is_underscore c")
  case True
  then have 1: "dropWhile is_underscore (s @ ''_'') = []" and 2: "dropWhile is_underscore s = []"
    by (auto simp: is_underscore_def)
  show ?thesis unfolding strip_underscore_def 1 2 by simp
next
  case False
  then have "dropWhile is_underscore (s @ ''_'') = dropWhile is_underscore s @ ''_''"
    by (auto simp: dropWhile_append1)
  then show ?thesis by (simp add: strip_underscore_def is_underscore_def)
qed

lemma strip_underscore_id:
  assumes "s \<noteq> []" "hd s \<noteq> CHR ''_''" "last s \<noteq> CHR ''_''"
  shows "strip_underscore s = s"
proof -
  have a: "dropWhile is_underscore s = s"
    using assms by (cases s) (auto simp: is_underscore_def)
  have "rev s \<noteq> []" "hd (rev s) \<noteq> CHR ''_''" using assms by (auto simp: hd_rev)
  then have "dropWhile is_underscore (rev s) = rev s"
    by (cases "rev s") (auto simp: is_underscore_def)
  with a show ?thesis by (simp add: strip_underscore_def)
qed

lemma strip_underscore_Nil: "strip_underscore [] = []"
  by (simp add: strip_underscore_def)

lemma str_join_Cons: "str_join sep (x # xs) = (if xs = [] then x else x @ sep @ str_join sep xs)"
  by (cases xs) auto

lemma str_join_snoc: "str_join sep (xs @ [x]) = (if xs = [] then x else str_join sep xs @ sep @ x)"
  by (induction sep xs rule: str_join.induct) auto

lemma str_join_nonempty:
  "mid \<noteq> [] \<Longrightarrow> \<forall>l\<in>set mid. l \<noteq> [] \<Longrightarrow>
   str_join sep mid \<noteq> [] \<and> hd (str_join sep mid) = hd (hd mid) \<and> last (str_join sep mid) = last (last mid)"
  by (induction sep mid rule: str_join.induct) auto

lemma flatten_col_lead: "flatten_col ([] # col) = flatten_col col"
  by (cases col) (auto simp: flatten_col_def str_join_Cons strip_underscore_lead strip_underscore_Nil)

lemma flatten_col_trail: "flatten_col (col @ [[]]) = flatten_col col"
  using strip_underscore_trail[of "str_join ''_'' col"]
  by (cases "col = []") (auto simp: flatten_col_def str_join_snoc strip_underscore_Nil)

lemma flatten_col_leads: "flatten_col (replicate a [] @ col) = flatten_col col"
  by (induction a) (auto simp: flatten_col_lead)

lemma flatten_col_trails: "flatten_col (col @ replicate b []) = flatten_col col"
proof (induction b)
  case 0
  then show ?case by simp
next
  case (Suc b)
  have "col @ replicate (Suc b) [] = (col @ replicate b []) @ [[]]"
    by (simp add: replicate_append_same)
  then show ?case using Suc flatten_col_trail[of "col @ replicate b []"] by simp
qed

lemma flatten_col_mid:
  assumes "\<forall>l\<in>set mid. l \<noteq> []"
    and "mid \<noteq> [] \<longrightarrow> hd (hd mid) \<noteq> CHR ''_'' \<and> last (last mid) \<noteq> CHR ''_''"
  shows "flatten_col mid = str_join ''_'' mid"
proof (cases "mid = []")
  case True
  then show ?thesis by (simp add: flatten_col_def strip_underscore_Nil)
next
  case False
  with assms str_join_nonempty[of mid "''_''"] show ?thesis
    by (auto simp: flatten_col_def intro!: strip_underscore_id)
qed

lemma flatten_nonempty_pad:
  "\<forall>l\<in>set mid. l \<noteq> [] \<Longrightarrow> flatten_nonempty (replicate a [] @ mid @ replicate b []) = str_join ''_'' mid"
  by (simp add: flatten_nonempty_def filter_id_conv)

lemma flatten_agrees:
  assumes "\<forall>l\<in>set mid. l \<noteq> []"
    and "mid \<noteq> [] \<longrightarrow> hd (hd mid) \<noteq> CHR ''_'' \<and> last (last mid) \<noteq> CHR ''_''"
  shows "flatten_col (replicate a [] @ mid @ replicate b []) =
         flatten_nonempty (replicate a [] @ mid @ replicate b [])"
  using assms by (simp add: flatten_col_leads flatten_col_trails flatten_col_mid flatten_nonempty_pad)

lemma flatten_before_records:
  "safe_convert_to_records (PDataFrame (DataFrame (MultiIndex cs) rows)) dv =
   safe_convert_to_records (PDataFrame (DataFrame (Index (map flatten_col cs)) rows)) dv"
  by (simp add: safe_convert_to_records_def)

text \<open>
  C4, as the code has it. A hierarchical header is flattened by joining all its levels
  with an underscore and stripping the underscores at both ends of the joined text. This
  is the join of the non-empty levels whenever the empty levels are all at the front or
  at the back and the text in between neither begins nor ends with an underscore. A table
  with hierarchical headers is normalized as the table with the flattened headers is.
  The levels \<open>price\<close>, \<open>close\<close> give \<open>price_close\<close>, the levels \<open>price\<close>, \<open>open\<close> give
  \<open>price_open\<close>, and the two keys differ.
\<close>

theorem flatten_col_joins_then_strips:
  "flatten_col col = strip_underscore (str_join ''_'' col) \<and>
   ((\<forall>level\<in>set mid. level \<noteq> []) \<and>
    (mid \<noteq> [] \<longrightarrow> hd (hd mid) \<noteq> CHR ''_'' \<and> last (last mid) \<noteq> CHR ''_'') \<longrightarrow>
      flatten_col (replicate a [] @ mid @ replicate b []) =
      flatten_nonempty (replicate a [] @ mid @ replicate b [])) \<and>
   safe_convert_to_records (PDataFrame (DataFrame (MultiIndex cs) rows)) dv =
     safe_convert_to_records (PDataFrame (DataFrame (Index (map flatten_col cs)) rows)) dv \<and>
   flatten_col [''price'', ''close''] = ''price_close'' \<and>
   flatten_col [''price'', ''open''] = ''price_open'' \<and>
   flatten_col [''price'', ''close''] \<noteq> flatten_col [''price'', ''open'']"
proof (intro conjI impI)
  show "flatten_col col = strip_underscore (str_join ''_'' col)"
    by (simp add: flatten_col_def)
next
  assume "(\<forall>level\<in>set mid. level \<noteq> []) \<and>
    (mid \<noteq> [] \<longrightarrow> hd (hd mid) \<noteq> CHR ''_'' \<and> last (last mid) \<noteq> CHR ''_'')"
  then show "flatten_col (replicate a [] @ mid @ replicate b []) =
      flatten_nonempty (replicate a [] @ mid @ replicate b [])"
    using flatten_agrees[of mid a b] by simp
next
  show "safe_convert_to_records (PDataFrame (DataFrame (MultiIndex cs) rows)) dv =
     safe_convert_to_records (PDataFrame (DataFrame (Index (map flatten_col cs)) rows)) dv"
    by (rule flatten_before_records)
next
  show "flatten_col [''price'', ''close''] = ''price_close''"
    by (simp add: flatten_col_def strip_underscore_def is_underscore_def)
next
  show "flatten_col [''price'', ''open''] = ''price_open''"
    by (simp add: flatten_col_def strip_underscore_def is_underscore_def)
next
  show "flatten_col [''price'', ''close''] \<noteq> flatten_col [''price'', ''open'']"
    by (simp add: flatten_col_def strip_underscore_def is_underscore_def)
qed

theorem flatten_col_joins_then_strips_witness:
  "flatten_col [[], ''price'', ''close'', []] = flatten_nonempty [[], ''price'', ''close'', []] \<and>
   flatten_nonempty [[], ''price'', ''close'', []] = ''price_close''"
proof -
  have h: "(\<forall>level\<in>set [''price'', ''close'']. level \<noteq> []) \<and>
    ([''price'', ''close''] \<noteq> [] \<longrightarrow>
       hd (hd [''price'', ''close'']) \<noteq> CHR ''_'' \<and> last (last [''price'', ''close'']) \<noteq> CHR ''_'')"
    by simp
  have "flatten_col (replicate (Suc 0) [] @ [''price'', ''close''] @ replicate (Suc 0) []) =
      flatten_nonempty (replicate (Suc 0) [] @ [''price'', ''close''] @ replicate (Suc 0) [])"
    by (rule mp[OF flatten_col_joins_then_strips[where mid = "[''price'', ''close'']"
            and a = "Suc 0" and b = "Suc 0", THEN conjunct2, THEN conjunct1] h])
  then have "flatten_col [[], ''price'', ''close'', []] =
      flatten_nonempty [[], ''price'', ''close'', []]"
    by simp
  then show ?thesis by (simp add: flatten_nonempty_def)
qed

text \<open>
  C4 as stated fails on a header with an empty level in the middle: the levels \<open>a\<close>,
  empty, \<open>b\<close> give \<open>a__b\<close>, and the join of the non-empty levels is \<open>a_b\<close>.
\<close>

theorem empty_middle_level_kept:
  "flatten_col [''a'', [], ''b''] = ''a__b'' \<and> flatten_nonempty [''a'', [], ''b''] = ''a_b''"
  by (simp add: flatten_col_def flatten_nonempty_def strip_underscore_def is_underscore_def)

section \<open>Properties of the HTTP layer\<close>

subsection \<open>Exceptions and status codes\<close>

text \<open>
  C6, as the code has it. The handler of the SJC gold price answers a \<^verbatim>\<open>ValueError\<close> of
  its accessor with status 400 and any other exception with status 500; the handlers of
  the MSN search and of the market indices, which have no clause for \<^verbatim>\<open>ValueError\<close>,
  answer every exception with status 500. The detail is the message of the exception in
  each case.
\<close>

theorem exception_mapping:
  "(sjc_gold_price date = Inl (ValueError m) \<longrightarrow>
      get_sjc_gold_price sjc_gold_price date = Inl (HTTPException 400 m)) \<and>
   (sjc_gold_price date = Inl (OtherException m) \<longrightarrow>
      get_sjc_gold_price sjc_gold_price date = Inl (HTTPException 500 m)) \<and>
   (search_symbol_id (query, loc, limit) = Inl e \<longrightarrow>
      msn_search_symbol search_symbol_id query loc limit = Inl (HTTPException 500 (str_exc e))) \<and>
   (get_all_indices () = Inl e' \<longrightarrow>
      get_market_indices get_all_indices = Inl (HTTPException 500 (str_exc e')))"
  by (simp add: get_sjc_gold_price_def msn_search_symbol_def get_market_indices_def
      except_400_500_def except_500_def)

theorem exception_mapping_witness:
  "get_sjc_gold_price (raising (ValueError ''invalid date range'')) (Some ''2015-01-01'') =
     Inl (HTTPException 400 ''invalid date range'') \<and>
   get_sjc_gold_price (raising (OtherException ''timed out'')) None =
     Inl (HTTPException 500 ''timed out'') \<and>
   msn_search_symbol (raising (OtherException ''timed out'')) ''btc'' None 10 =
     Inl (HTTPException 500 ''timed out'') \<and>
   get_market_indices (raising (ValueError ''no index'')) =
     Inl (HTTPException 500 ''no index'')"
  using
    exception_mapping[where sjc_gold_price = "raising (ValueError ''invalid date range'')"
      and date = "Some ''2015-01-01''" and m = "''invalid date range''"
      and search_symbol_id = "raising (OtherException ''timed out'')" and query = "''btc''"
      and loc = None and limit = 10 and e = "OtherException ''timed out''"
      and get_all_indices = "raising (ValueError ''no index'')" and e' = "ValueError ''no index''"]
    exception_mapping[where sjc_gold_price = "raising (OtherException ''timed out'')"
      and date = None and m = "''timed out''"
      and search_symbol_id = "raising (OtherException ''timed out'')" and query = "''btc''"
      and loc = None and limit = 10 and e = "OtherException ''timed out''"
      and get_all_indices = "raising (ValueError ''no index'')" and e' = "ValueError ''no index''"]
  by (simp add: raising_def)

text \<open>
  C6 as stated fails on the MSN search: a \<^verbatim>\<open>ValueError\<close> of its accessor is answered with
  status 500.
\<close>

theorem search_value_error_is_500:
  "msn_search_symbol (raising (ValueError ''invalid query'')) ''btc'' None 10 =
   Inl (HTTPException 500 ''invalid query'')"
  by (simp add: msn_search_symbol_def except_500_def raising_def)

subsection \<open>The error envelope\<close>

lemma str_nat_400: "str_nat 400 = ''400''"
  by (simp add: str_nat.simps digit_char_def)

text \<open>
  C7, as the code has it. In the application of \<^verbatim>\<open>api_server.py\<close> an \<^verbatim>\<open>HTTPException\<close>
  is answered with its status and the envelope of exactly the fields \<open>error\<close>, the text
  \<open>HTTP\<close> and the status, \<open>detail\<close> and \<open>timestamp\<close>; a \<^verbatim>\<open>ValueError\<close> with the message
  \<open>invalid date range\<close> from the accessor of the SJC gold price gives status 400, error
  \<open>HTTP 400\<close> and that detail; an exception no handler has turned into an
  \<^verbatim>\<open>HTTPException\<close> gives status 500 and the envelope with the error
  \<open>Internal Server Error\<close>. A failed readiness check is answered with status 503 and the
  fields \<open>ready\<close> and \<open>error\<close>.
\<close>

theorem error_envelope:
  "api_server now (Inl (HTTPException status detail)) =
     \<lparr>status_code = status,
      body = PDict [(''error'', Scalar (SStr (''HTTP '' @ str_nat status))),
                    (''detail'', Scalar (SStr detail)),
                    (''timestamp'', Scalar (SStr now))]\<rparr> \<and>
   (sjc_gold_price date = Inl (ValueError ''invalid date range'') \<longrightarrow>
      api_server now (get_sjc_gold_price sjc_gold_price date) =
        \<lparr>status_code = 400,
         body = PDict [(''error'', Scalar (SStr ''HTTP 400'')),
                       (''detail'', Scalar (SStr ''invalid date range'')),
                       (''timestamp'', Scalar (SStr now))]\<rparr>) \<and>
   api_server now (Inl (ValueError m)) =
     \<lparr>status_code = 500,
      body = PDict [(''error'', Scalar (SStr ''Internal Server Error'')),
                    (''detail'', Scalar (SStr m)),
                    (''timestamp'', Scalar (SStr now))]\<rparr> \<and>
   api_server now (Inl (OtherException m)) =
     \<lparr>status_code = 500,
      body = PDict [(''error'', Scalar (SStr ''Internal Server Error'')),
                    (''detail'', Scalar (SStr m)),
                    (''timestamp'', Scalar (SStr now))]\<rparr> \<and>
   (all_symbols () = Inl e \<longrightarrow>
      api_server now (readiness_check now all_symbols) =
        \<lparr>status_code = 503,
         body = PDict [(''ready'', Scalar (SBool False)),
                       (''error'', Scalar (SStr (str_exc e)))]\<rparr>)"
  by (simp add: api_server_def http_exception_handler_def general_exception_handler_def
      ErrorResponse_def get_sjc_gold_price_def except_400_500_def readiness_check_def
      str_nat_400)

theorem error_envelope_witness:
  "api_server ''2024-01-02T03:04:05''
     (get_sjc_gold_price (raising (ValueError ''invalid date range'')) None) =
     \<lparr>status_code = 400,
      body = PDict [(''error'', Scalar (SStr ''HTTP 400'')),
                    (''detail'', Scalar (SStr ''invalid date range'')),
                    (''timestamp'', Scalar (SStr ''2024-01-02T03:04:05''))]\<rparr> \<and>
   api_server ''2024-01-02T03:04:05''
     (readiness_check ''2024-01-02T03:04:05'' (raising (OtherException ''connection refused''))) =
     \<lparr>status_code = 503,
      body = PDict [(''ready'', Scalar (SBool False)),
                    (''error'', Scalar (SStr ''connection refused''))]\<rparr>"
  using error_envelope[where sjc_gold_price = "raising (ValueError ''invalid date range'')"
      and date = None and now = "''2024-01-02T03:04:05''"
      and all_symbols = "raising (OtherException ''connection refused'')"
      and e = "OtherException ''connection refused''"]
  by (simp add: raising_def)

text \<open>
  C7 as stated fails on a failed readiness check: the body has the fields \<open>ready\<close> and
  \<open>error\<close>, not the three fields of the envelope.
\<close>

theorem readiness_failure_body:
  "status_code (api_server ''2024-01-02T03:04:05''
     (readiness_check ''2024-01-02T03:04:05'' (raising (OtherException ''connection refused'')))) = 503 \<and>
   body (api_server ''2024-01-02T03:04:05''
     (readiness_check ''2024-01-02T03:04:05'' (raising (OtherException ''connection refused'')))) =
     PDict [(''ready'', Scalar (SBool False)), (''error'', Scalar (SStr ''connection refused''))]"
  by (simp add: api_server_def readiness_check_def raising_def)

subsection \<open>Ticker symbols\<close>









































section \<open>Properties of the normalizer on the store\<close>

subsection \<open>The version on the store computes what the other does\<close>

text \<open>
  For a series, for a table that is not empty and for a dict, the call on the store
  raises what the normalizer raises, or returns a list of dicts whose value is what the
  normalizer returns.
\<close>

lemma dict_ref_cases: "dict_ref h r \<Longrightarrow> \<exists>b d. r = Ref b \<and> b < length h \<and> h ! b = ODict d"
  by (auto simp: dict_ref_def lookup_def split: ref.splits if_splits option.splits obj.splits)

lemma series_step:
  assumes a: "a < length h" and l: "h ! a = OList es" and d: "\<forall>e\<in>set es. dict_ref h e"
    and al: "alloc h (ODict rcd) = (entry, h1)"
  defines "h2 \<equiv> list_append h1 (Ref a) entry"
  shows "a < length h2 \<and> h2 ! a = OList (es @ [entry]) \<and> (\<forall>e\<in>set (es @ [entry]). dict_ref h2 e) \<and>
         map (dict_at h2) (es @ [entry]) = map (dict_at h) es @ [rcd]"
proof -
  have e: "entry = Ref (length h)" and h1: "h1 = h @ [ODict rcd]" using al by (auto simp: alloc_def)
  have h2: "h2 = h1[a := OList (es @ [entry])]"
    using a l by (simp add: h2_def list_append_def lookup_def store_def h1 nth_append)
  have old: "dict_ref h2 x \<and> dict_at h2 x = dict_at h x" if "x \<in> set es" for x
  proof -
    from d that obtain b dd where x: "x = Ref b" "b < length h" "h ! b = ODict dd"
      using dict_ref_cases by blast
    then have "b \<noteq> a" using l by auto
    then show ?thesis using x a
      by (simp add: h2 h1 dict_ref_def dict_at_def lookup_def nth_append)
  qed
  have new: "dict_ref h2 entry \<and> dict_at h2 entry = rcd"
    using a by (simp add: h2 h1 e dict_ref_def dict_at_def lookup_def nth_append)
  show ?thesis using a old new by (auto simp: h2 h1)
qed

lemma series_loop_h_refines:
  assumes "a < length h" "h ! a = OList es" "\<forall>e\<in>set es. dict_ref h e"
  shows "case series_loop_h items (Ref a) h of
           (Some e, h') \<Rightarrow> series_loop items (map (dict_at h) es) = Inl e
         | (None, h') \<Rightarrow>
             (\<exists>es'. a < length h' \<and> h' ! a = OList es' \<and>
                    series_loop items (map (dict_at h) es) = Inr (map (dict_at h') es'))"
  using assms
proof (induction items arbitrary: h es)
  case Nil
  then show ?case by simp
next
  case (Cons item items)
  obtain idx val where item: "item = (idx, val)" by (cases item)
  show ?case
  proof (cases "series_value val")
    case (Inl e)
    then show ?thesis using item by simp
  next
    case (Inr v)
    let ?rcd = "[(''index'', Scalar (SStr idx)), (''value'', v)]"
    obtain entry h1 where al: "alloc h (ODict ?rcd) = (entry, h1)" by (cases "alloc h (ODict ?rcd)")
    let ?h2 = "list_append h1 (Ref a) entry"
    from series_step[OF Cons.prems(1) Cons.prems(2) Cons.prems(3) al]
    have s: "a < length ?h2" "?h2 ! a = OList (es @ [entry])" "\<forall>e\<in>set (es @ [entry]). dict_ref ?h2 e"
      "map (dict_at ?h2) (es @ [entry]) = map (dict_at h) es @ [?rcd]"
      by simp_all
    have run: "series_loop_h (item # items) (Ref a) h = series_loop_h items (Ref a) ?h2"
      using item Inr al by simp
    have step: "series_loop (item # items) (map (dict_at h) es) =
        series_loop items (map (dict_at h) es @ [?rcd])"
      using item Inr by simp
    note ih = Cons.IH[OF s(1) s(2) s(3)]
    from ih[unfolded s(4)] show ?thesis unfolding run step .
  qed
qed

lemma series_refines:
  assumes "lookup h0 df = Some (OSeries items)"
  shows "case safe_convert_to_records_h h0 df dv of
           (Inl e, h') \<Rightarrow> safe_convert_to_records (PSeries items) dv' = Inl e
         | (Inr r, h') \<Rightarrow> safe_convert_to_records (PSeries items) dv' = Inr (records_at h' r)"
proof -
  obtain d h where d: "(if dv = Imm SNone then alloc h0 (OList []) else (dv, h0)) = (d, h)"
    by (cases "if dv = Imm SNone then alloc h0 (OList []) else (dv, h0)")
  have l: "lookup h df = Some (OSeries items)"
    using assms d by (auto simp: alloc_def lookup_def nth_append split: if_splits ref.splits)
  obtain result h1 where al: "alloc h (OList []) = (result, h1)" by (cases "alloc h (OList [])")
  then have r: "result = Ref (length h)" and h1: "h1 = h @ [OList []]" by (auto simp: alloc_def)
  have "case series_loop_h items (Ref (length h)) h1 of
           (Some e, h') \<Rightarrow> series_loop items (map (dict_at h1) []) = Inl e
         | (None, h') \<Rightarrow>
             (\<exists>es'. length h < length h' \<and> h' ! length h = OList es' \<and>
                    series_loop items (map (dict_at h1) []) = Inr (map (dict_at h') es'))"
    by (rule series_loop_h_refines) (simp_all add: h1)
  then show ?thesis
    unfolding safe_convert_to_records_h_def d
    using l al r
    by (auto simp: safe_convert_to_records_def records_at_def lookup_def comp_def
        split: prod.splits option.splits)
qed

lemma to_dict_h_exact:
  "to_dict_h ds h = (map Ref [length h ..< length h + length ds], h @ map ODict ds)"
proof (induction ds arbitrary: h)
  case Nil
  then show ?case by simp
next
  case (Cons d ds)
  have "[length h ..< length h + Suc (length ds)] =
        length h # [Suc (length h) ..< Suc (length h) + length ds]"
    by (subst upt_conv_Cons) simp_all
  then show ?case using Cons[of "h @ [ODict d]"] by (simp add: alloc_def)
qed

lemma clean_loop_h_refines:
  assumes "a < length h" "h ! a = ODict d"
  shows "case clean_loop items d of
           Inl e \<Rightarrow> fst (clean_loop_h items (Ref a) h) = Some e
         | Inr d' \<Rightarrow> clean_loop_h items (Ref a) h = (None, h[a := ODict d'])"
  using assms
proof (induction items arbitrary: d h)
  case Nil
  then have "h[a := ODict d] = h" by (simp add: list_update_same_conv)
  then show ?case by simp
next
  case (Cons item items)
  obtain key v where item: "item = (key, v)" by (cases item)
  show ?case
  proof (cases "clean_assign v")
    case (Inl e)
    then show ?thesis using item by simp
  next
    case (Inr act)
    show ?thesis
    proof (cases act)
      case None
      have run: "clean_loop_h (item # items) (Ref a) h = clean_loop_h items (Ref a) h"
        using item Inr None by simp
      have step: "clean_loop (item # items) d = clean_loop items d"
        using item Inr None by simp
      show ?thesis unfolding run step by (rule Cons.IH[OF Cons.prems])
    next
      case (Some v')
      let ?h1 = "h[a := ODict (dict_set d key v')]"
      have da: "dict_assign h (Ref a) key v' = ?h1"
        using Cons.prems by (simp add: dict_assign_def lookup_def store_def)
      have run: "clean_loop_h (item # items) (Ref a) h = clean_loop_h items (Ref a) ?h1"
        using item Inr Some da by simp
      have step: "clean_loop (item # items) d = clean_loop items (dict_set d key v')"
        using item Inr Some by simp
      have "a < length ?h1" "?h1 ! a = ODict (dict_set d key v')" using Cons.prems by simp_all
      from Cons.IH[OF this] show ?thesis unfolding run step
        by (simp split: sum.splits)
    qed
  qed
qed

lemma clean_records_h_refines:
  assumes "n + length ds \<le> length h" "\<forall>k<length ds. h ! (n + k) = ODict (ds ! k)"
  shows "case clean_records ds of
           Inl e \<Rightarrow> fst (clean_records_h (map Ref [n ..< n + length ds]) h) = Some e
         | Inr ds' \<Rightarrow>
             (\<exists>h'. clean_records_h (map Ref [n ..< n + length ds]) h = (None, h') \<and>
                   length h' = length h \<and> length ds' = length ds \<and>
                   (\<forall>k<length ds. h' ! (n + k) = ODict (ds' ! k)) \<and>
                   (\<forall>b<length h. b < n \<or> n + length ds \<le> b \<longrightarrow> h' ! b = h ! b))"
  using assms
proof (induction ds arbitrary: n h)
  case Nil
  then show ?case by simp
next
  case (Cons d ds)
  have upt: "[n ..< n + length (d # ds)] = n # [Suc n ..< Suc n + length ds]"
    by (subst upt_conv_Cons) simp_all
  have n: "n < length h" and hn: "h ! n = ODict d"
    using Cons.prems by (auto dest: spec[of _ 0])
  have lk: "lookup h (Ref n) = Some (ODict d)" using n hn by (simp add: lookup_def)
  note loop = clean_loop_h_refines[OF n hn, of d]
  show ?case
  proof (cases "clean_record d")
    case (Inl e)
    then have "fst (clean_loop_h d (Ref n) h) = Some e"
      using loop by (simp add: clean_record_def)
    then show ?thesis using Inl lk upt by (auto split: prod.splits option.splits)
  next
    case (Inr d')
    let ?h1 = "h[n := ODict d']"
    have run: "clean_loop_h d (Ref n) h = (None, ?h1)"
      using loop Inr by (simp add: clean_record_def)
    have p1: "Suc n + length ds \<le> length ?h1" using Cons.prems(1) by simp
    have p2: "\<forall>k<length ds. ?h1 ! (Suc n + k) = ODict (ds ! k)"
    proof (intro allI impI)
      fix k assume k: "k < length ds"
      then have "h ! (n + Suc k) = ODict ((d # ds) ! Suc k)" using Cons.prems(2) by auto
      then show "?h1 ! (Suc n + k) = ODict (ds ! k)" by simp
    qed
    note ih = Cons.IH[OF p1 p2]
    have step: "clean_records_h (map Ref [n ..< n + length (d # ds)]) h =
        clean_records_h (map Ref [Suc n ..< Suc n + length ds]) ?h1"
      using lk run upt by simp
    show ?thesis
    proof (cases "clean_records ds")
      case (Inl e)
      then show ?thesis using ih Inr step by simp
    next
      case (Inr ds')
      then obtain h' where h': "clean_records_h (map Ref [Suc n ..< Suc n + length ds]) ?h1 = (None, h')"
        "length h' = length ?h1" "length ds' = length ds"
        "\<forall>k<length ds. h' ! (Suc n + k) = ODict (ds' ! k)"
        "\<forall>b<length ?h1. b < Suc n \<or> Suc n + length ds \<le> b \<longrightarrow> h' ! b = ?h1 ! b"
        using ih by auto
      have at: "\<forall>k<length (d # ds). h' ! (n + k) = ODict ((d' # ds') ! k)"
      proof (intro allI impI)
        fix k assume k: "k < length (d # ds)"
        show "h' ! (n + k) = ODict ((d' # ds') ! k)"
        proof (cases k)
          case 0
          then show ?thesis using h'(5) n by simp
        next
          case (Suc j)
          then show ?thesis using h'(4) k by simp
        qed
      qed
      have others: "\<forall>b<length h. b < n \<or> n + length (d # ds) \<le> b \<longrightarrow> h' ! b = h ! b"
        using h'(5) by auto
      show ?thesis
        using \<open>clean_record d = Inr d'\<close> Inr step h'(1) h'(2) h'(3) at others by simp
    qed
  qed
qed

lemma table_records_h_refines:
  assumes "lookup h df = Some (OFrame (Index ls) rows)"
  shows "case table_records_h df h of
           (Inl e, h') \<Rightarrow> clean_records (to_dict_records ls rows) = Inl e
         | (Inr r, h') \<Rightarrow>
             (\<exists>recs. clean_records (to_dict_records ls rows) = Inr recs \<and>
                     records_at h' r = PList (map PDict recs))"
proof -
  let ?ds = "to_dict_records ls rows"
  let ?n = "length h"
  let ?entries = "map Ref [?n ..< ?n + length ?ds]"
  let ?h2 = "(h @ map ODict ?ds) @ [OList ?entries]"
  have t: "table_records_h df h =
      (case clean_records_h ?entries ?h2 of
         (Some e, h3) \<Rightarrow> (Inl e, h3)
       | (None, h3) \<Rightarrow> (Inr (Ref (length (h @ map ODict ?ds))), h3))"
    using assms by (simp add: table_records_h_def to_dict_h_exact alloc_def)
  have p1: "?n + length ?ds \<le> length ?h2" by simp
  have p2: "\<forall>k<length ?ds. ?h2 ! (?n + k) = ODict (?ds ! k)"
    by (simp add: nth_append)
  note r = clean_records_h_refines[OF p1 p2]
  show ?thesis
  proof (cases "clean_records ?ds")
    case (Inl e)
    then show ?thesis using r t by (auto split: prod.splits option.splits)
  next
    case (Inr recs)
    then obtain h' where h': "clean_records_h ?entries ?h2 = (None, h')"
      "length h' = length ?h2" "length recs = length ?ds"
      "\<forall>k<length ?ds. h' ! (?n + k) = ODict (recs ! k)"
      "\<forall>b<length ?h2. b < ?n \<or> ?n + length ?ds \<le> b \<longrightarrow> h' ! b = ?h2 ! b"
      using r by auto
    have l: "h' ! (?n + length ?ds) = OList ?entries"
      using h'(5) by (simp add: nth_append)
    have "map (\<lambda>e. PDict (dict_at h' e)) ?entries = map PDict recs"
      using h'(2) h'(3) h'(4)
      by (intro nth_equalityI) (auto simp: dict_at_def lookup_def)
    then have "records_at h' (Ref (?n + length ?ds)) = PList (map PDict recs)"
      using l h'(2) by (simp add: records_at_def lookup_def)
    then show ?thesis using t h'(1) Inr by simp
  qed
qed

lemma table_refines:
  assumes "lookup h0 df = Some (OFrame cols rows)" "\<not> df_empty (DataFrame cols rows)"
  shows "case safe_convert_to_records_h h0 df dv of
           (Inl e, h') \<Rightarrow>
             safe_convert_to_records (PDataFrame (DataFrame cols rows)) dv' = Inl e
         | (Inr r, h') \<Rightarrow>
             safe_convert_to_records (PDataFrame (DataFrame cols rows)) dv' = Inr (records_at h' r)"
proof -
  obtain d h where d: "(if dv = Imm SNone then alloc h0 (OList []) else (dv, h0)) = (d, h)"
    by (cases "if dv = Imm SNone then alloc h0 (OList []) else (dv, h0)")
  have l: "lookup h df = Some (OFrame cols rows)"
    using assms(1) d by (auto simp: alloc_def lookup_def nth_append split: if_splits ref.splits)
  have pure: "safe_convert_to_records (PDataFrame (DataFrame cols rows)) dv' =
      (case clean_records (to_dict_records (column_labels cols) rows) of
         Inl e \<Rightarrow> Inl e
       | Inr records \<Rightarrow> Inr (PList (map PDict records)))"
    using assms(2) by (simp add: safe_convert_to_records_def)
  show ?thesis
  proof (cases cols)
    case (Index ls)
    have run: "safe_convert_to_records_h h0 df dv = table_records_h df h"
      unfolding safe_convert_to_records_h_def d using l assms(2) Index by simp
    from table_records_h_refines[of h df ls rows] l Index
    show ?thesis unfolding run pure
      by (auto simp: Index split: prod.splits sum.splits)
  next
    case (MultiIndex cs)
    let ?ls = "map flatten_col cs"
    let ?h2 = "(h @ [OFrame cols rows])[length h := OFrame (Index ?ls) rows]"
    have run: "safe_convert_to_records_h h0 df dv = table_records_h (Ref (length h)) ?h2"
      unfolding safe_convert_to_records_h_def d using l assms(2) MultiIndex
      by (simp add: alloc_def set_columns_def lookup_def store_def)
    have "lookup ?h2 (Ref (length h)) = Some (OFrame (Index ?ls) rows)"
      by (simp add: lookup_def)
    from table_records_h_refines[OF this]
    show ?thesis unfolding run pure
      by (auto simp: MultiIndex split: prod.splits sum.splits)
  qed
qed

lemma dict_refines:
  assumes "lookup h0 df = Some (ODict d)"
  shows "case safe_convert_to_records_h h0 df dv of
           (Inl e, h') \<Rightarrow> False
         | (Inr r, h') \<Rightarrow> safe_convert_to_records (PDict d) dv' = Inr (records_at h' r)"
proof -
  obtain dflt h where d: "(if dv = Imm SNone then alloc h0 (OList []) else (dv, h0)) = (dflt, h)"
    by (cases "if dv = Imm SNone then alloc h0 (OList []) else (dv, h0)")
  have l: "lookup h df = Some (ODict d)"
    using assms d by (auto simp: alloc_def lookup_def nth_append split: if_splits ref.splits)
  have run: "safe_convert_to_records_h h0 df dv = (Inr (Ref (length h)), h @ [OList [df]])"
    unfolding safe_convert_to_records_h_def d using l by (simp add: alloc_def)
  have "lookup (h @ [OList [df]]) df = Some (ODict d)"
    using l by (auto simp: lookup_def nth_append split: ref.splits if_splits)
  then have "records_at (h @ [OList [df]]) (Ref (length h)) = PList [PDict d]"
    by (simp add: records_at_def dict_at_def lookup_def)
  then show ?thesis unfolding run by (simp add: safe_convert_to_records_def)
qed

subsection \<open>The normalizer writes to no object of its caller's\<close>

lemma keeps_refl: "keeps n h h"
  by (simp add: keeps_def)

lemma keeps_trans: "keeps n h h1 \<Longrightarrow> keeps n h1 h2 \<Longrightarrow> keeps n h h2"
  by (simp add: keeps_def)

lemma alloc_keeps: "n \<le> length h \<Longrightarrow> alloc h ob = (r, h') \<Longrightarrow> keeps n h h' \<and> fresh n r"
  by (auto simp: alloc_def keeps_def fresh_def)

lemma store_keeps: "fresh n r \<Longrightarrow> keeps n h (store h r ob)"
  by (auto simp: store_def keeps_def fresh_def split: ref.splits)

lemma list_append_keeps: "fresh n l \<Longrightarrow> keeps n h (list_append h l r)"
  by (auto simp: list_append_def store_keeps keeps_refl split: option.splits obj.splits)

lemma dict_assign_keeps: "fresh n d \<Longrightarrow> keeps n h (dict_assign h d key v)"
  by (auto simp: dict_assign_def store_keeps keeps_refl split: option.splits obj.splits)

lemma set_columns_keeps: "fresh n f \<Longrightarrow> keeps n h (set_columns h f cols)"
  by (auto simp: set_columns_def store_keeps keeps_refl split: option.splits obj.splits)

lemma keeps_length: "keeps n h h' \<Longrightarrow> n \<le> length h \<Longrightarrow> n \<le> length h'"
  by (simp add: keeps_def)

lemma series_loop_h_keeps:
  "fresh n result \<Longrightarrow> n \<le> length h \<Longrightarrow> keeps n h (snd (series_loop_h items result h))"
proof (induction items arbitrary: h)
  case Nil
  then show ?case by (simp add: keeps_refl)
next
  case (Cons item items)
  obtain idx val where item: "item = (idx, val)" by (cases item)
  show ?case
  proof (cases "series_value val")
    case (Inl e)
    then show ?thesis using item by (simp add: keeps_refl)
  next
    case (Inr v)
    obtain entry h1 where a: "alloc h (ODict [(''index'', Scalar (SStr idx)), (''value'', v)]) = (entry, h1)"
      by (cases "alloc h (ODict [(''index'', Scalar (SStr idx)), (''value'', v)])")
    have k1: "keeps n h h1" using alloc_keeps[OF Cons.prems(2) a] by simp
    have k2: "keeps n h1 (list_append h1 result entry)"
      using Cons.prems(1) by (rule list_append_keeps)
    have k12: "keeps n h (list_append h1 result entry)" using k1 k2 by (rule keeps_trans)
    have "n \<le> length (list_append h1 result entry)"
      using k12 Cons.prems(2) by (rule keeps_length)
    from Cons.IH[OF Cons.prems(1) this]
    have "keeps n (list_append h1 result entry) (snd (series_loop_h items result (list_append h1 result entry)))" .
    with k12 show ?thesis using item Inr a by (auto intro: keeps_trans)
  qed
qed

lemma to_dict_h_keeps:
  "n \<le> length h \<Longrightarrow> to_dict_h ds h = (entries, h') \<Longrightarrow> keeps n h h' \<and> list_all (fresh n) entries"
proof (induction ds arbitrary: h entries)
  case Nil
  then show ?case by (simp add: keeps_refl)
next
  case (Cons d ds)
  obtain entry h1 where a: "alloc h (ODict d) = (entry, h1)" by (cases "alloc h (ODict d)")
  obtain es where r: "to_dict_h ds h1 = (es, h')" and e: "entries = entry # es"
    using Cons.prems(2) a by (auto split: prod.splits)
  have k1: "keeps n h h1" and f: "fresh n entry" using alloc_keeps[OF Cons.prems(1) a] by simp_all
  have "n \<le> length h1" using k1 Cons.prems(1) by (rule keeps_length)
  from Cons.IH[OF this r] k1 f e show ?case by (auto intro: keeps_trans)
qed

lemma clean_loop_h_keeps: "fresh n rcd \<Longrightarrow> keeps n h (snd (clean_loop_h items rcd h))"
proof (induction items arbitrary: h)
  case Nil
  then show ?case by (simp add: keeps_refl)
next
  case (Cons item items)
  obtain key v where item: "item = (key, v)" by (cases item)
  show ?case
  proof (cases "clean_assign v")
    case (Inl e)
    then show ?thesis using item by (simp add: keeps_refl)
  next
    case (Inr a)
    show ?thesis
    proof (cases a)
      case None
      then show ?thesis using Inr item Cons by simp
    next
      case (Some v')
      have "keeps n h (dict_assign h rcd key v')" using Cons.prems by (rule dict_assign_keeps)
      moreover have "keeps n (dict_assign h rcd key v') (snd (clean_loop_h items rcd (dict_assign h rcd key v')))"
        using Cons.prems by (rule Cons.IH)
      ultimately show ?thesis using Inr Some item by (auto intro: keeps_trans)
    qed
  qed
qed

lemma clean_records_h_keeps:
  "list_all (fresh n) entries \<Longrightarrow> keeps n h (snd (clean_records_h entries h))"
proof (induction entries arbitrary: h)
  case Nil
  then show ?case by (simp add: keeps_refl)
next
  case (Cons rcd rest)
  have f: "fresh n rcd" and fs: "list_all (fresh n) rest" using Cons.prems by simp_all
  show ?case
  proof (cases "lookup h rcd")
    case None
    then show ?thesis using Cons.IH[OF fs] by simp
  next
    case (Some ob)
    show ?thesis
    proof (cases ob)
      case (ODict items)
      obtain r h1 where c: "clean_loop_h items rcd h = (r, h1)" by (cases "clean_loop_h items rcd h")
      have k1: "keeps n h h1" using clean_loop_h_keeps[OF f, of h items] c by simp
      show ?thesis
      proof (cases r)
        case None
        then show ?thesis using Some ODict c k1 Cons.IH[OF fs, of h1] by (auto intro: keeps_trans)
      next
        case (Some e)
        then show ?thesis using \<open>lookup h rcd = Some ob\<close> ODict c k1 by simp
      qed
    qed (use Some Cons.IH[OF fs] in simp_all)
  qed
qed

lemma table_records_h_keeps: "n \<le> length h \<Longrightarrow> keeps n h (snd (table_records_h df h))"
proof (cases "\<exists>ls rows. lookup h df = Some (OFrame (Index ls) rows)")
  case False
  then show ?thesis
    by (auto simp: table_records_h_def keeps_refl split: option.splits obj.splits columns.splits)
next
  case True
  assume n: "n \<le> length h"
  from True obtain ls rows where l: "lookup h df = Some (OFrame (Index ls) rows)" by auto
  obtain entries h1 where t: "to_dict_h (to_dict_records ls rows) h = (entries, h1)"
    by (cases "to_dict_h (to_dict_records ls rows) h")
  obtain records h2 where a: "alloc h1 (OList entries) = (records, h2)"
    by (cases "alloc h1 (OList entries)")
  have k1: "keeps n h h1" and f: "list_all (fresh n) entries" using to_dict_h_keeps[OF n t] by simp_all
  have n1: "n \<le> length h1" using k1 n by (rule keeps_length)
  have k2: "keeps n h1 h2" using alloc_keeps[OF n1 a] by simp
  have k3: "keeps n h2 (snd (clean_records_h entries h2))" using f by (rule clean_records_h_keeps)
  have "keeps n h (snd (clean_records_h entries h2))" using k1 k2 k3 by (blast intro: keeps_trans)
  then show ?thesis using l t a
    by (auto simp: table_records_h_def split: prod.splits option.splits)
qed

lemma safe_convert_to_records_h_keeps:
  "keeps (length h0) h0 (snd (safe_convert_to_records_h h0 df default_value))"
proof -
  let ?n = "length h0"
  obtain dv h where d: "(if default_value = Imm SNone then alloc h0 (OList []) else (default_value, h0)) = (dv, h)"
    by (cases "if default_value = Imm SNone then alloc h0 (OList []) else (default_value, h0)")
  have k0: "keeps ?n h0 h"
    using d alloc_keeps[of ?n h0 "OList []" dv h] by (auto simp: keeps_refl split: if_splits)
  have n: "?n \<le> length h" using k0 by (simp add: keeps_def)
  have "keeps ?n h (snd (case lookup h df of
             None \<Rightarrow> (Inr dv, h)
           | Some (OSeries items) \<Rightarrow>
               (case alloc h (OList []) of
                  (result, h1) \<Rightarrow>
                    (case series_loop_h items result h1 of
                       (Some e, h2) \<Rightarrow> (Inl e, h2)
                     | (None, h2) \<Rightarrow> (Inr result, h2)))
           | Some (OFrame cols rows) \<Rightarrow>
               if df_empty (DataFrame cols rows) then (Inr dv, h)
               else
                 (case cols of
                    MultiIndex cs \<Rightarrow>
                      (case alloc h (OFrame cols rows) of
                         (copy, h1) \<Rightarrow>
                           table_records_h copy (set_columns h1 copy (Index (map flatten_col cs))))
                  | Index ls \<Rightarrow> table_records_h df h)
           | Some (ODict d) \<Rightarrow>
               (case alloc h (OList [df]) of (wrapped, h1) \<Rightarrow> (Inr wrapped, h1))
           | Some (OList xs) \<Rightarrow> (Inr df, h)))" (is "keeps ?n h (snd ?body)")
  proof (cases "lookup h df")
    case None
    then show ?thesis by (simp add: keeps_refl)
  next
    case (Some ob)
    show ?thesis
    proof (cases ob)
      case (OSeries items)
      obtain result h1 where a: "alloc h (OList []) = (result, h1)" by (cases "alloc h (OList [])")
      have k1: "keeps ?n h h1" and f: "fresh ?n result" using alloc_keeps[OF n a] by simp_all
      have n1: "?n \<le> length h1" using k1 n by (rule keeps_length)
      have "keeps ?n h1 (snd (series_loop_h items result h1))"
        using f n1 by (rule series_loop_h_keeps)
      with k1 have "keeps ?n h (snd (series_loop_h items result h1))" by (rule keeps_trans)
      then show ?thesis using Some OSeries a by (auto split: prod.splits option.splits)
    next
      case (OFrame cols rows)
      show ?thesis
      proof (cases "df_empty (DataFrame cols rows)")
        case True
        then show ?thesis using Some OFrame by (simp add: keeps_refl)
      next
        case False
        show ?thesis
        proof (cases cols)
          case (Index ls)
          then show ?thesis using Some OFrame False table_records_h_keeps[OF n] by simp
        next
          case (MultiIndex cs)
          obtain copy h1 where a: "alloc h (OFrame cols rows) = (copy, h1)"
            by (cases "alloc h (OFrame cols rows)")
          have k1: "keeps ?n h h1" and f: "fresh ?n copy" using alloc_keeps[OF n a] by simp_all
          have k2: "keeps ?n h1 (set_columns h1 copy (Index (map flatten_col cs)))"
            using f by (rule set_columns_keeps)
          have k12: "keeps ?n h (set_columns h1 copy (Index (map flatten_col cs)))"
            using k1 k2 by (rule keeps_trans)
          have "?n \<le> length (set_columns h1 copy (Index (map flatten_col cs)))"
            using k12 n by (rule keeps_length)
          then have "keeps ?n (set_columns h1 copy (Index (map flatten_col cs)))
             (snd (table_records_h copy (set_columns h1 copy (Index (map flatten_col cs)))))"
            by (rule table_records_h_keeps)
          with k12 show ?thesis using Some OFrame False MultiIndex a by (auto intro: keeps_trans)
        qed
      qed
    next
      case (ODict d)
      obtain wrapped h1 where a: "alloc h (OList [df]) = (wrapped, h1)" by (cases "alloc h (OList [df])")
      then show ?thesis using Some ODict alloc_keeps[OF n a] by simp
    next
      case (OList xs)
      then show ?thesis using Some by (simp add: keeps_refl)
    qed
  qed
  with k0 have "keeps ?n h0 (snd ?body)" by (rule keeps_trans)
  then show ?thesis unfolding safe_convert_to_records_h_def d by simp
qed

text \<open>
  On a table with hierarchical headers the normalizer leaves the table of its caller
  (object 0) as it was, flattens the headers of a copy (object 2) and cleans the dicts
  it has made (object 3).
\<close>

lemma flattening_writes_to_a_copy:
  "safe_convert_to_records_h
     [OFrame (MultiIndex [[''price'', ''close''], [''price'', ''open'']])
        [[Scalar (SFloat NaN), Scalar (NpInteger 3)]]]
     (Ref 0) (Imm SNone) =
   (Inr (Ref 4),
    [OFrame (MultiIndex [[''price'', ''close''], [''price'', ''open'']])
       [[Scalar (SFloat NaN), Scalar (NpInteger 3)]],
     OList [],
     OFrame (Index [''price_close'', ''price_open''])
       [[Scalar (SFloat NaN), Scalar (NpInteger 3)]],
     ODict [(''price_close'', Scalar SNone), (''price_open'', Scalar (SInt 3))],
     OList [Ref 3]])"
  by (simp add: safe_convert_to_records_h_def alloc_def lookup_def store_def set_columns_def
      table_records_h_def to_dict_records_def row_to_dict_def dict_assign_def
      flatten_col_def strip_underscore_def is_underscore_def)

text \<open>
  C10. Whatever the input and the default, every object that was in the store before the
  call is in it unchanged after the call, also when the call raises: the table of the
  caller, its column labels and its cells among them. All the normalizer writes to are
  objects it has made itself.
\<close>

theorem caller_objects_unchanged:
  "length h0 \<le> length (snd (safe_convert_to_records_h h0 df default_value)) \<and>
   take (length h0) (snd (safe_convert_to_records_h h0 df default_value)) = h0"
  using safe_convert_to_records_h_keeps[of h0 df default_value] by (simp add: keeps_def)

end
